theory Spec2Isabelle
  imports Main "HOL-Library.Char_ord" "HOL-Library.List_Lexorder" "HOL-Library.AList"
begin

section \<open>The PTA wire-scanner file reader (\<^verbatim>\<open>src/pta.py\<close>)\<close>

text \<open>
  The reader is modelled as it is written: every exception of the Python code is a value
  of the type \<open>error\<close>, returned on the left of a sum; dictionaries are association
  lists in insertion order with unique keys (\<open>map_of\<close> looks a key up); strings are
  \<open>char list\<close>, one \<open>char\<close> per ASCII character.  The built-in \<^verbatim>\<open>float\<close> is a
  parameter \<open>flt\<close> of the model: \<open>flt tok = None\<close> stands for the \<^verbatim>\<open>ValueError\<close> that
  \<^verbatim>\<open>float(tok)\<close> raises, \<open>flt tok = Some v\<close> for the value it returns.  No theorem depends
  on which tokens \<^verbatim>\<open>float\<close> accepts or on floating-point arithmetic.
\<close>

subsection \<open>Exceptions\<close>

datatype error =
    IndexError
      \<comment> \<open>a list index out of range: \<^verbatim>\<open>items[0]\<close>, \<^verbatim>\<open>indices[0]\<close>, \<^verbatim>\<open>tokens[0]\<close>, \<^verbatim>\<open>line.split("=")[1]\<close>\<close>
  | UnpackError nat nat
      \<comment> \<open>\<^verbatim>\<open>ValueError\<close> of a tuple assignment: names on the left, values on the right\<close>
  | FloatError string
      \<comment> \<open>\<^verbatim>\<open>ValueError\<close> of \<^verbatim>\<open>float(token)\<close>; the message quotes the token and nothing else\<close>
  | IntError string
      \<comment> \<open>\<^verbatim>\<open>ValueError\<close> of \<^verbatim>\<open>int(token)\<close>; the message quotes the token and nothing else\<close>
  | DateError
      \<comment> \<open>\<^verbatim>\<open>ValueError\<close> of \<^verbatim>\<open>datetime(...)\<close>: a field out of range\<close>
  | KeyError string
      \<comment> \<open>a dictionary lookup of an absent key\<close>

subsection \<open>String primitives of Python\<close>

definition is_space :: "char \<Rightarrow> bool" where
  \<comment> \<open>the ASCII characters for which \<^verbatim>\<open>str.isspace\<close> holds\<close>
  "is_space c = (of_char c \<in> {9, 10, 11, 12, 13, 28, 29, 30, 31, 32 :: nat})"

definition is_digit :: "char \<Rightarrow> bool" where
  "is_digit c = (48 \<le> (of_char c :: nat) \<and> (of_char c :: nat) \<le> 57)"

definition rstrip :: "string \<Rightarrow> string" where
  "rstrip s = rev (dropWhile is_space (rev s))"

definition strip :: "string \<Rightarrow> string" where
  "strip s = dropWhile is_space (rstrip s)"

definition startswith :: "string \<Rightarrow> string \<Rightarrow> bool" where
  \<comment> \<open>\<^verbatim>\<open>s.startswith(p)\<close>\<close>
  "startswith s p = (take (length p) s = p)"

definition lower_char :: "char \<Rightarrow> char" where
  "lower_char c =
     (if 65 \<le> (of_char c :: nat) \<and> (of_char c :: nat) \<le> 90
      then char_of (of_char c + (32 :: nat)) else c)"

definition lower :: "string \<Rightarrow> string" where
  "lower s = map lower_char s"

text \<open>\<^verbatim>\<open>s.split()\<close>: the maximal runs of non-space characters; \<open>cur\<close> is the run being
  read, reversed.\<close>

fun split_ws :: "string \<Rightarrow> string \<Rightarrow> string list" where
  "split_ws cur [] = (if cur = [] then [] else [rev cur])"
| "split_ws cur (c # cs) =
     (if is_space c
      then (if cur = [] then split_ws [] cs else rev cur # split_ws [] cs)
      else split_ws (c # cur) cs)"

definition tokens_of :: "string \<Rightarrow> string list" where
  "tokens_of s = split_ws [] s"

text \<open>\<^verbatim>\<open>s.split(sep)\<close> for a non-empty separator: the pieces between the occurrences of
  \<open>sep\<close>, found from left to right without overlap; \<open>cur\<close> is the piece being read,
  reversed.  (Python raises on an empty separator; the reader only passes literals.)\<close>

fun split_sep :: "string \<Rightarrow> string \<Rightarrow> string \<Rightarrow> string list" where
  "split_sep sep cur [] = [rev cur]"
| "split_sep sep cur (c # cs) =
     (if sep \<noteq> [] \<and> take (length sep) (c # cs) = sep
      then rev cur # split_sep sep [] (drop (length sep) (c # cs))
      else split_sep sep (c # cur) cs)"

definition str_split :: "string \<Rightarrow> string \<Rightarrow> string list" where
  "str_split s sep = split_sep sep [] s"

subsection \<open>\<^verbatim>\<open>transpose\<close>, \<^verbatim>\<open>split\<close>, \<^verbatim>\<open>string_to_list\<close>\<close>

text \<open>\<^verbatim>\<open>[list(x) for x in zip(*array)]\<close>: \<^verbatim>\<open>zip\<close> stops at the shortest row, and
  \<^verbatim>\<open>zip()\<close> of no rows is empty.\<close>

fun shortest :: "'a list list \<Rightarrow> nat" where
  "shortest [] = 0"
| "shortest [r] = length r"
| "shortest (r # rs) = min (length r) (shortest rs)"

definition transpose_rows :: "'a list list \<Rightarrow> 'a list list" where
  "transpose_rows array = map (\<lambda>j. map (\<lambda>r. r ! j) array) [0..<shortest array]"

text \<open>\<^verbatim>\<open>split(items, token)\<close>.  \<^verbatim>\<open>items[0]\<close> raises on an empty list, and
  \<^verbatim>\<open>indices[0]\<close> and \<^verbatim>\<open>indices[-1]\<close> raise when the token does not occur.\<close>

definition indices_of :: "'a list \<Rightarrow> 'a \<Rightarrow> nat list" where
  "indices_of items token = filter (\<lambda>i. items ! i = token) [0..<length items]"

definition slice :: "'a list \<Rightarrow> nat \<Rightarrow> nat \<Rightarrow> 'a list" where
  \<comment> \<open>\<^verbatim>\<open>items[lo:hi]\<close> for non-negative bounds\<close>
  "slice items lo hi = take (hi - lo) (drop lo items)"

definition split :: "'a list \<Rightarrow> 'a \<Rightarrow> error + 'a list list" where
  "split items token =
     (let indices = indices_of items token in
      if items = [] then Inl IndexError
      else if hd items \<noteq> token \<and> indices = [] then Inl IndexError
      else
        let first = (if hd items \<noteq> token then [take (hd indices) items] else []);
            middle = map (\<lambda>(lo, hi). slice items (lo + 1) hi) (zip (butlast indices) (tl indices))
        in if last items \<noteq> token
           then (if indices = [] then Inl IndexError
                 else Inr (first @ middle @ [drop (last indices + 1) items]))
           else Inr (first @ middle))"

text \<open>\<^verbatim>\<open>[float(token) for token in ...]\<close>: the first token that \<^verbatim>\<open>float\<close> refuses
  raises.\<close>

fun floats :: "(string \<Rightarrow> 'f option) \<Rightarrow> string list \<Rightarrow> error + 'f list" where
  "floats flt [] = Inr []"
| "floats flt (t # ts) =
     (case flt t of
        None \<Rightarrow> Inl (FloatError t)
      | Some v \<Rightarrow> (case floats flt ts of Inl e \<Rightarrow> Inl e | Inr vs \<Rightarrow> Inr (v # vs)))"

definition string_to_list :: "(string \<Rightarrow> 'f option) \<Rightarrow> string \<Rightarrow> error + 'f list" where
  "string_to_list flt s = floats flt (tokens_of s)"

subsection \<open>\<^verbatim>\<open>int\<close>, \<^verbatim>\<open>str\<close>, \<^verbatim>\<open>format\<close> and \<^verbatim>\<open>datetime\<close>\<close>

text \<open>\<^verbatim>\<open>int(token)\<close> in base 10: surrounding white space is stripped, one sign is allowed,
  and the digits may be grouped by single underscores.  (The interpreter's configurable
  limit on the number of digits is not modelled.)\<close>

fun int_body :: "string \<Rightarrow> string option" where
  "int_body [] = None"
| "int_body (c # cs) =
     (if is_digit c
      then (case cs of
              [] \<Rightarrow> Some [c]
            | d # ds \<Rightarrow>
                if d = CHR ''_'' then map_option (Cons c) (int_body ds)
                else map_option (Cons c) (int_body (d # ds)))
      else None)"

fun digits_value :: "nat \<Rightarrow> string \<Rightarrow> nat" where
  "digits_value acc [] = acc"
| "digits_value acc (c # cs) = digits_value (10 * acc + (of_char c - 48)) cs"

definition py_int :: "string \<Rightarrow> int option" where
  "py_int s =
     (case strip s of
        [] \<Rightarrow> None
      | c # cs \<Rightarrow>
          if c = CHR ''-'' then map_option (\<lambda>ds. - int (digits_value 0 ds)) (int_body cs)
          else if c = CHR ''+'' then map_option (\<lambda>ds. int (digits_value 0 ds)) (int_body cs)
          else map_option (\<lambda>ds. int (digits_value 0 ds)) (int_body (c # cs)))"

fun ints :: "string list \<Rightarrow> error + int list" where
  "ints [] = Inr []"
| "ints (t # ts) =
     (case py_int t of
        None \<Rightarrow> Inl (IntError t)
      | Some v \<Rightarrow> (case ints ts of Inl e \<Rightarrow> Inl e | Inr vs \<Rightarrow> Inr (v # vs)))"

fun digits_of :: "nat \<Rightarrow> string" where
  "digits_of n =
     (if n < 10 then [char_of (48 + n)]
      else digits_of (n div 10) @ [char_of (48 + n mod 10)])"

definition str_int :: "int \<Rightarrow> string" where
  \<comment> \<open>\<^verbatim>\<open>"{}".format(n)\<close>\<close>
  "str_int n = (if n < 0 then CHR ''-'' # digits_of (nat (- n)) else digits_of (nat n))"

definition fmt02 :: "int \<Rightarrow> string" where
  \<comment> \<open>\<^verbatim>\<open>"{:02.0f}".format(n)\<close> for an integer \<open>n\<close> that a float holds exactly; the reader
      formats only fields that \<^verbatim>\<open>datetime\<close> has accepted\<close>
  "fmt02 n =
     (if n < 0 then CHR ''-'' # digits_of (nat (- n))
      else if n < 10 then CHR ''0'' # digits_of (nat n)
      else digits_of (nat n))"

record datetime =
  year :: int
  month :: int
  day :: int
  hour :: int
  minute :: int
  second :: int

definition is_leap :: "int \<Rightarrow> bool" where
  "is_leap y = (y mod 4 = 0 \<and> (y mod 100 \<noteq> 0 \<or> y mod 400 = 0))"

definition days_in_month :: "int \<Rightarrow> int \<Rightarrow> int" where
  "days_in_month y m =
     (if m = 2 then (if is_leap y then 29 else 28)
      else if m = 4 \<or> m = 6 \<or> m = 9 \<or> m = 11 then 30 else 31)"

definition valid_datetime :: "int \<Rightarrow> int \<Rightarrow> int \<Rightarrow> int \<Rightarrow> int \<Rightarrow> int \<Rightarrow> bool" where
  \<comment> \<open>the arguments that \<^verbatim>\<open>datetime(year, month, day, hour, minute, second)\<close> accepts\<close>
  "valid_datetime y mo d h mi s =
     (1 \<le> y \<and> y \<le> 9999 \<and> 1 \<le> mo \<and> mo \<le> 12 \<and> 1 \<le> d \<and> d \<le> days_in_month y mo \<and>
      0 \<le> h \<and> h \<le> 23 \<and> 0 \<le> mi \<and> mi \<le> 59 \<and> 0 \<le> s \<and> s \<le> 59)"

subsection \<open>\<^verbatim>\<open>PTA.read_file\<close>: the timestamp (lines 100 to 108)\<close>

definition read_timestamp :: "string \<Rightarrow> error + datetime \<times> string" where
  "read_timestamp fname =
     (case str_split (last (str_split fname ''WireAnalysisFmt-'')) ''_'' of
        [date, time0] \<Rightarrow>
          (let time = hd (str_split time0 ''.pta'') in
           case ints (str_split date ''.'') of
             Inl e \<Rightarrow> Inl e
           | Inr [y, mo, d] \<Rightarrow>
               (case ints (str_split time ''.'') of
                  Inl e \<Rightarrow> Inl e
                | Inr [h, mi, s] \<Rightarrow>
                    if valid_datetime y mo d h mi s
                    then Inr (\<lparr>year = y, month = mo, day = d, hour = h, minute = mi, second = s\<rparr>,
                              drop 2 (str_int y @ fmt02 mo @ fmt02 d @ fmt02 h @ fmt02 mi @ fmt02 s))
                    else Inl DateError
                | Inr ts \<Rightarrow> Inl (UnpackError 3 (length ts)))
           | Inr ds \<Rightarrow> Inl (UnpackError 3 (length ds)))
      | parts \<Rightarrow> Inl (UnpackError 2 (length parts)))"

subsection \<open>\<^verbatim>\<open>PTA.read_file\<close>: the lines of each wire-scanner (lines 111 to 124)\<close>

definition setdefault_append ::
  "(string \<times> string list) list \<Rightarrow> string \<Rightarrow> string \<Rightarrow> (string \<times> string list) list" where
  \<comment> \<open>\<^verbatim>\<open>lines.setdefault(ws_id, []).append(line)\<close>\<close>
  "setdefault_append lines k line =
     (case map_of lines k of
        None \<Rightarrow> lines @ [(k, [line])]
      | Some ls \<Rightarrow> AList.update k (ls @ [line]) lines)"

text \<open>The loop over the file: the state is the dictionary \<open>lines\<close>, the current
  \<open>ws_id\<close> and \<open>pvloggerid\<close>; the argument is what is left of the file.\<close>

fun collect ::
  "(string \<times> string list) list \<Rightarrow> string option \<Rightarrow> int option \<Rightarrow> string list \<Rightarrow>
   error + (string \<times> string list) list \<times> int option" where
  "collect lines ws_id pv [] = Inr (lines, pv)"
| "collect lines ws_id pv (raw # rest) =
     (let line = rstrip raw in
      if startswith line ''RTBT_Diag'' then collect lines (Some line) pv rest
      else
        let lines' = (case ws_id of None \<Rightarrow> lines | Some w \<Rightarrow> setdefault_append lines w line) in
        if startswith line ''PVLoggerID''
        then (case str_split line ''='' of
                _ # v # _ \<Rightarrow>
                  (case py_int v of
                     None \<Rightarrow> Inl (IntError v)
                   | Some n \<Rightarrow> collect lines' ws_id (Some n) rest)
              | _ \<Rightarrow> Inl IndexError)
        else collect lines' ws_id pv rest)"

subsection \<open>\<^verbatim>\<open>PTA.read_file\<close>: one wire-scanner (lines 133 to 177)\<close>

record 'f profile =
  x_pos :: "'f list"
  y_pos :: "'f list"
  u_pos :: "'f list"
  fx :: "'f list"
  fy :: "'f list"
  fu :: "'f list"
  fx_fit :: "'f list"
  fy_fit :: "'f list"
  fu_fit :: "'f list"
  stats :: "(string \<times> 'f) list"

text \<open>The fields \<open>x_pos\<close>, \<open>y_pos\<close>, \<open>u_pos\<close> are the entries \<^verbatim>\<open>"x"\<close>, \<^verbatim>\<open>"y"\<close>, \<^verbatim>\<open>"u"\<close> of
  the scanner's dictionary.\<close>

fun float_rows :: "(string \<Rightarrow> 'f option) \<Rightarrow> string list \<Rightarrow> error + 'f list list" where
  "float_rows flt [] = Inr []"
| "float_rows flt (line # rest) =
     (case string_to_list flt line of
        Inl e \<Rightarrow> Inl e
      | Inr r \<Rightarrow> (case float_rows flt rest of Inl e \<Rightarrow> Inl e | Inr rs \<Rightarrow> Inr (r # rs)))"

definition columns :: "(string \<Rightarrow> 'f option) \<Rightarrow> string list \<Rightarrow> error + 'f list list" where
  \<comment> \<open>the rows of a section, transposed, and the check of the assignment to seven names\<close>
  "columns flt section_lines =
     (case float_rows flt section_lines of
        Inl e \<Rightarrow> Inl e
      | Inr data_arr \<Rightarrow>
          (let cols = transpose_rows data_arr in
           if length cols = 7 then Inr cols else Inl (UnpackError 7 (length cols))))"

fun stats_loop ::
  "(string \<Rightarrow> 'f option) \<Rightarrow> (string \<times> 'f) list \<Rightarrow> string list \<Rightarrow> error + (string \<times> 'f) list" where
  "stats_loop flt st [] = Inr st"
| "stats_loop flt st (line # rest) =
     (case tokens_of line of
        [] \<Rightarrow> Inl IndexError
      | tok # toks \<Rightarrow>
          (let name = lower tok in
           case floats flt toks of
             Inl e \<Rightarrow> Inl e
           | Inr [stat_y_fit, stat_y_rms, stat_u_fit, stat_u_rms, stat_x_fit, stat_x_rms] \<Rightarrow>
               stats_loop flt
                 (AList.update (name @ ''_u_fit'') stat_u_fit
                 (AList.update (name @ ''_u_rms'') stat_u_rms
                 (AList.update (name @ ''_y_fit'') stat_y_fit
                 (AList.update (name @ ''_y_rms'') stat_y_rms
                 (AList.update (name @ ''_x_fit'') stat_x_fit
                 (AList.update (name @ ''_x_rms'') stat_x_rms st))))))
                 rest
           | Inr vals \<Rightarrow> Inl (UnpackError 6 (length vals))))"

definition read_sections ::
  "(string \<Rightarrow> 'f option) \<Rightarrow> string list \<Rightarrow> string list \<Rightarrow> string list \<Rightarrow> error + 'f profile" where
  "read_sections flt lines_stats lines_raw lines_fit =
     (case columns flt (drop 2 lines_raw) of
        Inl e \<Rightarrow> Inl e
      | Inr raw \<Rightarrow>
          (case columns flt (drop 2 lines_fit) of
             Inl e \<Rightarrow> Inl e
           | Inr fit \<Rightarrow>
               (case stats_loop flt [] (drop 2 lines_stats) of
                  Inl e \<Rightarrow> Inl e
                | Inr st \<Rightarrow>
                    Inr \<lparr>x_pos = fit ! 4, y_pos = fit ! 5, u_pos = fit ! 6,
                         fx = raw ! 3, fy = raw ! 1, fu = raw ! 2,
                         fx_fit = fit ! 3, fy_fit = fit ! 1, fu_fit = fit ! 2,
                         stats = st\<rparr>)))"

definition read_node :: "(string \<Rightarrow> 'f option) \<Rightarrow> string list \<Rightarrow> error + 'f profile" where
  "read_node flt node_lines =
     (case split node_lines '''' of
        Inl e \<Rightarrow> Inl e
      | Inr sections \<Rightarrow>
          (case take 3 sections of
             [lines_stats, lines_raw, lines_fit] \<Rightarrow> read_sections flt lines_stats lines_raw lines_fit
           | firsts \<Rightarrow> Inl (UnpackError 3 (length firsts))))"

subsection \<open>\<^verbatim>\<open>PTA.read_file\<close> and \<^verbatim>\<open>PTA.__init__\<close>\<close>

fun read_nodes ::
  "(string \<Rightarrow> 'f option) \<Rightarrow> (string \<times> string list) list \<Rightarrow> (string \<times> 'f profile) list \<Rightarrow>
   string list \<Rightarrow> error + (string \<times> 'f profile) list" where
  "read_nodes flt lines self [] = Inr self"
| "read_nodes flt lines self (node_id # rest) =
     (case map_of lines node_id of
        None \<Rightarrow> Inl (KeyError node_id)
      | Some node_lines \<Rightarrow>
          (case read_node flt node_lines of
             Inl e \<Rightarrow> Inl e
           | Inr p \<Rightarrow> read_nodes flt lines (AList.update node_id p self) rest))"

record 'f pta =
  filename :: string
  filename_short :: string
  timestamp :: datetime
  timestamp_short :: string
  pvloggerid :: "int option"
  node_ids :: "string list"
  profiles :: "(string \<times> 'f profile) list"

text \<open>\<open>file\<close> is the sequence of lines that iterating over the opened file yields; the
  field \<open>profiles\<close> is the dictionary that an instance of \<^verbatim>\<open>PTA\<close> itself is.\<close>

definition read_file :: "(string \<Rightarrow> 'f option) \<Rightarrow> string \<Rightarrow> string list \<Rightarrow> error + 'f pta" where
  "read_file flt fname file =
     (case read_timestamp fname of
        Inl e \<Rightarrow> Inl e
      | Inr (ts, short) \<Rightarrow>
          (case collect [] None None file of
             Inl e \<Rightarrow> Inl e
           | Inr (lines, pv) \<Rightarrow>
               (let ids = sort (map fst lines) in
                case read_nodes flt lines [] ids of
                  Inl e \<Rightarrow> Inl e
                | Inr self \<Rightarrow>
                    Inr \<lparr>filename = fname, filename_short = last (str_split fname ''/''),
                         timestamp = ts, timestamp_short = short, pvloggerid = pv,
                         node_ids = ids, profiles = self\<rparr>)))"

definition PTA :: "(string \<Rightarrow> 'f option) \<Rightarrow> string \<Rightarrow> string list \<Rightarrow> error + 'f pta" where
  "PTA flt fname file = read_file flt fname file"

subsection \<open>An instance of \<^verbatim>\<open>float\<close> for concrete inputs\<close>

text \<open>On a token of one to fifteen decimal digits \<^verbatim>\<open>float\<close> returns the float that equals
  the integer written, exactly; \<open>float_of_digits\<close> returns that integer.  It refuses every
  other token, so it is used below only on inputs whose tokens are plain digits or are
  refused by \<^verbatim>\<open>float\<close> as well.\<close>

definition float_of_digits :: "string \<Rightarrow> int option" where
  "float_of_digits t =
     (if t \<noteq> [] \<and> list_all is_digit t \<and> length t \<le> 15
      then Some (int (digits_value 0 t)) else None)"

subsection \<open>Notions of the specification\<close>

text \<open>The marker lines of a file, in the order of the file: the lines that, stripped, start
  with the facility prefix.\<close>

definition markers :: "string list \<Rightarrow> string list" where
  "markers file = filter (\<lambda>line. startswith line ''RTBT_Diag'') (map rstrip file)"

text \<open>The lines that follow an occurrence of the marker \<open>k\<close>, each up to the next marker
  or the end of the input, in the order of the file; \<open>cur\<close> is the marker read last.\<close>

fun following :: "string \<Rightarrow> string option \<Rightarrow> string list \<Rightarrow> string list" where
  "following k cur [] = []"
| "following k cur (raw # rest) =
     (if startswith (rstrip raw) ''RTBT_Diag'' then following k (Some (rstrip raw)) rest
      else if cur = Some k then rstrip raw # following k cur rest
      else following k cur rest)"

text \<open>The lines that set the logger ID, and the number such a line gives.\<close>

definition logger_lines :: "string list \<Rightarrow> string list" where
  "logger_lines file = filter (\<lambda>line. startswith line ''PVLoggerID'') (map rstrip file)"

definition logger_value :: "string \<Rightarrow> int option" where
  "logger_value line = (case str_split line ''='' of _ # v # _ \<Rightarrow> py_int v | _ \<Rightarrow> None)"

subsection \<open>Concrete inputs\<close>

text \<open>A file name and a small file of two wire-scanners in the layout of the PTA files:
  per scanner a marker line, then three sections (statistics, raw profile, fitted profile),
  each with a title line and a rule, each closed by a blank line.\<close>

definition example_name :: string where
  "example_name = ''/data/WireAnalysisFmt-2023.02.27_23.57.00.pta.txt''"

definition example_file :: "string list" where
  "example_file =
    [''start time: 2023.02.27\<newline>'',
     ''PVLoggerID=12345\<newline>'',
     ''RTBT_Diag:WS24\<newline>'',
     ''Statistics\<newline>'',
     ''----------\<newline>'',
     ''Sigma 10 20 30 40 50 60\<newline>'',
     ''\<newline>'',
     ''Raw\<newline>'',
     ''----------\<newline>'',
     ''0 1 2 3 4 5 6\<newline>'',
     ''10 11 12 13 14 15 16\<newline>'',
     ''\<newline>'',
     ''Fit\<newline>'',
     ''----------\<newline>'',
     ''0 21 22 23 4 5 6\<newline>'',
     ''10 31 32 33 14 15 16\<newline>'',
     ''\<newline>'',
     ''RTBT_Diag:WS02\<newline>'',
     ''Statistics\<newline>'',
     ''----------\<newline>'',
     ''Mean 1 2 3 4 5 6\<newline>'',
     ''\<newline>'',
     ''Raw\<newline>'',
     ''----------\<newline>'',
     ''7 8 9 10 11 12 13\<newline>'',
     ''\<newline>'',
     ''Fit\<newline>'',
     ''----------\<newline>'',
     ''7 18 19 20 11 12 13\<newline>'',
     ''\<newline>'']"

definition example_pta :: "int pta" where
  "example_pta =
    \<lparr>filename = ''/data/WireAnalysisFmt-2023.02.27_23.57.00.pta.txt'',
     filename_short = ''WireAnalysisFmt-2023.02.27_23.57.00.pta.txt'',
     timestamp = \<lparr>year = 2023, month = 2, day = 27, hour = 23, minute = 57, second = 0\<rparr>,
     timestamp_short = ''230227235700'',
     pvloggerid = Some 12345,
     node_ids = [''RTBT_Diag:WS02'', ''RTBT_Diag:WS24''],
     profiles =
       [(''RTBT_Diag:WS02'',
         \<lparr>x_pos = [11], y_pos = [12], u_pos = [13], fx = [10], fy = [8], fu = [9],
          fx_fit = [20], fy_fit = [18], fu_fit = [19],
          stats = [(''mean_x_rms'', 6), (''mean_x_fit'', 5), (''mean_y_rms'', 2),
                   (''mean_y_fit'', 1), (''mean_u_rms'', 4), (''mean_u_fit'', 3)]\<rparr>),
        (''RTBT_Diag:WS24'',
         \<lparr>x_pos = [4, 14], y_pos = [5, 15], u_pos = [6, 16], fx = [3, 13], fy = [1, 11],
          fu = [2, 12], fx_fit = [23, 33], fy_fit = [21, 31], fu_fit = [22, 32],
          stats = [(''sigma_x_rms'', 60), (''sigma_x_fit'', 50), (''sigma_y_rms'', 20),
                   (''sigma_y_fit'', 10), (''sigma_u_rms'', 40), (''sigma_u_fit'', 30)]\<rparr>)]\<rparr>"

text \<open>A file in which the marker of WS01 is followed at once by another marker, the marker
  of WS02 occurs twice, and the marker of WS03 ends the input.\<close>

definition example_repeated :: "string list" where
  "example_repeated =
    [''RTBT_Diag:WS01\<newline>'',
     ''RTBT_Diag:WS02\<newline>'',
     ''Statistics\<newline>'',
     ''----------\<newline>'',
     ''Sigma 10 20 30 40 50 60\<newline>'',
     ''\<newline>'',
     ''Raw\<newline>'',
     ''----------\<newline>'',
     ''0 1 2 3 4 5 6\<newline>'',
     ''\<newline>'',
     ''RTBT_Diag:WS02\<newline>'',
     ''Fit\<newline>'',
     ''----------\<newline>'',
     ''0 21 22 23 14 15 16\<newline>'',
     ''\<newline>'',
     ''RTBT_Diag:WS03\<newline>'']"



text \<open>The lines of one wire-scanner: one raw row, two fitted rows with other positions.\<close>

definition example_block :: "string list" where
  "example_block =
    [''Statistics'', ''----------'', ''Sigma 10 20 30 40 50 60'', '''',
     ''Raw'', ''----------'', ''0 1 2 3 4 5 6'', '''',
     ''Fit'', ''----------'', ''0 21 22 23 14 15 16'', ''1 31 32 33 24 25 26'', '''']"





definition example_bad_raw :: "string list" where
  "example_bad_raw =
    [''RTBT_Diag:WS24\<newline>'',
     ''Statistics\<newline>'', ''----------\<newline>'', ''Sigma 10 20 30 40 50 60\<newline>'', ''\<newline>'',
     ''Raw\<newline>'', ''----------\<newline>'', ''0 1 abc 3 4 5 6\<newline>'', ''\<newline>'',
     ''Fit\<newline>'', ''----------\<newline>'', ''0 21 22 23 14 15 16\<newline>'', ''\<newline>'']"

definition example_bad_fit :: "string list" where
  "example_bad_fit =
    [''RTBT_Diag:WS02\<newline>'',
     ''Statistics\<newline>'', ''----------\<newline>'', ''Mean 1 2 3 4 5 6\<newline>'', ''\<newline>'',
     ''Raw\<newline>'', ''----------\<newline>'', ''7 8 9 10 11 12 13\<newline>'', ''\<newline>'',
     ''Fit\<newline>'', ''----------\<newline>'', ''7 18 19 20 11 abc 13\<newline>'', ''\<newline>'']"

definition example_extra_token :: "string list" where
  "example_extra_token =
    [''RTBT_Diag:WS24\<newline>'',
     ''Statistics\<newline>'', ''----------\<newline>'', ''Sigma 10 20 30 40 50 60\<newline>'', ''\<newline>'',
     ''Raw\<newline>'', ''----------\<newline>'', ''0 1 2 3 4 5 6\<newline>'',
     ''10 11 12 13 14 15 16 999\<newline>'', ''\<newline>'',
     ''Fit\<newline>'', ''----------\<newline>'', ''0 21 22 23 4 5 6\<newline>'',
     ''10 31 32 33 14 15 16\<newline>'', ''\<newline>'']"

section \<open>Properties\<close>

subsection \<open>\<^verbatim>\<open>split\<close>\<close>

lemma indices_of_absent: "token \<notin> set items \<Longrightarrow> indices_of items token = []"
  by (auto simp: indices_of_def filter_empty_conv)

lemma indices_of_all:
  "\<forall>x\<in>set items. x = token \<Longrightarrow> indices_of items token = [0..<length items]"
  by (auto simp: indices_of_def filter_id_conv)

lemma zip_consecutive:
  "zip (butlast [0..<n]) (tl [0..<n]) = map (\<lambda>i. (i, Suc i)) [0..<n - 1]"
  by (rule nth_equalityI) (auto simp: nth_butlast nth_tl)

lemma split_absent:
  assumes "token \<notin> set items"
  shows "split items token = Inl IndexError"
proof (cases "items = []")
  case True
  then show ?thesis by (simp add: split_def Let_def)
next
  case False
  then have "hd items \<noteq> token" using assms hd_in_set by fastforce
  then show ?thesis using False by (simp add: split_def Let_def indices_of_absent [OF assms])
qed

lemma split_all_token:
  assumes "items \<noteq> []" "\<forall>x\<in>set items. x = token"
  shows "split items token = Inr (replicate (length items - 1) [])"
proof -
  have ends: "hd items = token" "last items = token"
    using assms by auto
  have "map (\<lambda>(lo, hi). slice items (lo + 1) hi)
          (zip (butlast [0..<length items]) (tl [0..<length items]))
        = replicate (length items - 1) []"
    unfolding zip_consecutive by (simp add: slice_def map_replicate_const comp_def)
  then show ?thesis
    using assms ends by (simp add: split_def indices_of_all Let_def)
qed

text \<open>
  \<^bold>\<open>C2\<close> (as amended).  The two laws claimed for the section splitter do not hold of
  \<^verbatim>\<open>split\<close>.  What holds instead: on a non-empty sequence in which the sentinel does not
  occur, \<^verbatim>\<open>split\<close> raises \<^verbatim>\<open>IndexError\<close> (at \<^verbatim>\<open>indices[0]\<close>) and returns no section; on
  a sequence of \<open>n \<ge> 1\<close> sentinels it returns \<open>n - 1\<close> sections, each of them empty (the
  runs between consecutive sentinels), so zero sections only when \<open>n = 1\<close>.
\<close>

theorem C2_split_laws:
  "items \<noteq> [] \<Longrightarrow>
     (token \<notin> set items \<longrightarrow> split items token = Inl IndexError) \<and>
     ((\<forall>x\<in>set items. x = token) \<longrightarrow>
        split items token = Inr (replicate (length items - 1) []))"
  by (simp add: split_absent split_all_token)

theorem C2_split_laws_witness:
  "split [''cat'', ''dog''] ''x'' = Inl IndexError \<and>
   split [''x'', ''x'', ''x''] ''x'' = Inr [[], []] \<and>
   split [''x''] ''x'' = Inr []"
  using C2_split_laws [of "[''cat'', ''dog'']" "''x''"]
    C2_split_laws [of "[''x'', ''x'', ''x'']" "''x''"]
    C2_split_laws [of "[''x'']" "''x''"]
  by simp

text \<open>The claim as stated fails: a sequence without the sentinel does not give one section
  holding the whole input, and two sentinels give one (empty) section, not zero.\<close>

theorem C2_counterexample:
  "split [''title'', ''-----'', ''1 2 3''] '''' = Inl IndexError \<and>
   split [''''::string, ''''] '''' = Inr [[]]"
  by (simp add: split_def indices_of_def slice_def)

subsection \<open>The loop over the wire-scanners\<close>

lemma read_nodes_fails:
  "k \<in> set ids \<Longrightarrow> map_of lines k = Some ls \<Longrightarrow> read_node flt ls = Inl e \<Longrightarrow>
   \<exists>e'. read_nodes flt lines self ids = Inl e'"
proof (induction ids arbitrary: self)
  case Nil
  then show ?case by simp
next
  case (Cons a ids)
  show ?case
  proof (cases "a = k")
    case True
    then show ?thesis using Cons.prems by simp
  next
    case False
    then have "k \<in> set ids" using Cons.prems by simp
    from Cons.IH [OF this Cons.prems(2,3)] show ?thesis
      by (auto split: option.splits sum.splits)
  qed
qed

lemma read_nodes_Inr:
  "read_nodes flt lines self ids = Inr self' \<Longrightarrow> distinct ids \<Longrightarrow>
   set ids \<inter> set (map fst self) = {} \<Longrightarrow>
   map fst self' = map fst self @ ids \<and>
   (\<forall>k\<in>set ids. \<exists>ls p. map_of lines k = Some ls \<and> read_node flt ls = Inr p \<and>
        map_of self' k = Some p) \<and>
   (\<forall>k. k \<notin> set ids \<longrightarrow> map_of self' k = map_of self k)"
proof (induction ids arbitrary: self)
  case Nil
  then show ?case by simp
next
  case (Cons a ids)
  from Cons.prems(1) obtain ls p where
    ls: "map_of lines a = Some ls" and p: "read_node flt ls = Inr p" and
    rest: "read_nodes flt lines (AList.update a p self) ids = Inr self'"
    by (auto split: option.splits sum.splits)
  have keys: "map fst (AList.update a p self) = map fst self @ [a]"
    using Cons.prems(3) by (simp add: update_keys)
  have disj: "set ids \<inter> set (map fst (AList.update a p self)) = {}"
    using Cons.prems(2,3) unfolding keys by auto
  have d: "distinct ids" using Cons.prems(2) by simp
  note IH = Cons.IH [OF rest d disj]
  have a_notin: "a \<notin> set ids" using Cons.prems(2) by simp
  have "map_of self' a = Some p"
    using IH a_notin by (simp add: update_conv')
  moreover have "map fst self' = map fst self @ a # ids"
    using IH keys by simp
  moreover have "\<forall>k. k \<notin> set (a # ids) \<longrightarrow> map_of self' k = map_of self k"
    using IH by (simp add: update_conv')
  ultimately show ?case using IH ls p by auto
qed

subsection \<open>The loop over the file\<close>

lemma map_of_setdefault_append:
  "map_of (setdefault_append lines k l) =
   (map_of lines)(k \<mapsto> (case map_of lines k of None \<Rightarrow> [l] | Some ls \<Rightarrow> ls @ [l]))"
  by (rule ext) (auto simp: setdefault_append_def update_conv' map_add_def split: option.splits)

lemma distinct_setdefault_append:
  "distinct (map fst lines) \<Longrightarrow> distinct (map fst (setdefault_append lines k l))"
  by (auto simp: setdefault_append_def distinct_update map_of_eq_None_iff split: option.splits)


lemma collect_step_marker:
  "startswith (rstrip raw) ''RTBT_Diag'' \<Longrightarrow>
   collect lines ws pv (raw # rest) = collect lines (Some (rstrip raw)) pv rest"
  by (simp add: Let_def)

lemma collect_step_other:
  assumes "\<not> startswith (rstrip raw) ''RTBT_Diag''"
    and "collect lines ws pv (raw # rest) = Inr r"
  shows "\<exists>pv1. collect (case ws of None \<Rightarrow> lines | Some w \<Rightarrow> setdefault_append lines w (rstrip raw))
            ws pv1 rest = Inr r \<and>
         pv1 = (if startswith (rstrip raw) ''PVLoggerID'' then logger_value (rstrip raw) else pv) \<and>
         (startswith (rstrip raw) ''PVLoggerID'' \<longrightarrow> logger_value (rstrip raw) \<noteq> None)"
  using assms
  by (auto simp: Let_def logger_value_def split: if_splits list.splits option.splits)

lemma collect_blocks:
  "collect lines ws pv fl = Inr (d, pv') \<Longrightarrow> distinct (map fst lines) \<Longrightarrow>
   distinct (map fst d) \<and>
   (\<forall>k. map_of d k =
      (case map_of lines k of
         None \<Rightarrow> (if following k ws fl = [] then None else Some (following k ws fl))
       | Some ls \<Rightarrow> Some (ls @ following k ws fl)))"
proof (induction fl arbitrary: lines ws pv)
  case Nil
  then show ?case by (auto split: option.splits)
next
  case (Cons raw rest)
  show ?case
  proof (cases "startswith (rstrip raw) ''RTBT_Diag''")
    case True
    with Cons.prems(1) have "collect lines (Some (rstrip raw)) pv rest = Inr (d, pv')"
      by (simp add: Let_def)
    from Cons.IH [OF this Cons.prems(2)] have IH: "distinct (map fst d) \<and>
      (\<forall>k. map_of d k =
        (case map_of lines k of
           None \<Rightarrow> (if following k (Some (rstrip raw)) rest = [] then None
                     else Some (following k (Some (rstrip raw)) rest))
         | Some ls \<Rightarrow> Some (ls @ following k (Some (rstrip raw)) rest)))" .
    have f: "following k ws (raw # rest) = following k (Some (rstrip raw)) rest" for k
      using True by simp
    show ?thesis unfolding f by (rule IH)
  next
    case False
    define lines' where
      "lines' = (case ws of None \<Rightarrow> lines | Some w \<Rightarrow> setdefault_append lines w (rstrip raw))"
    from collect_step_other [OF False Cons.prems(1)] obtain pv1 where
      c: "collect lines' ws pv1 rest = Inr (d, pv')" unfolding lines'_def by blast
    have dl: "distinct (map fst lines')"
      unfolding lines'_def using Cons.prems(2)
      by (auto simp: distinct_setdefault_append split: option.splits)
    note IH = Cons.IH [OF c dl]
    have "map_of d k =
      (case map_of lines k of
         None \<Rightarrow> (if following k ws (raw # rest) = [] then None
                   else Some (following k ws (raw # rest)))
       | Some ls \<Rightarrow> Some (ls @ following k ws (raw # rest)))" for k
    proof -
      have mk: "map_of d k =
        (case map_of lines' k of
           None \<Rightarrow> (if following k ws rest = [] then None else Some (following k ws rest))
         | Some ls \<Rightarrow> Some (ls @ following k ws rest))"
        using IH by blast
      show ?thesis
      proof (cases "ws = Some k")
        case True
        then have lk: "map_of lines' k =
            Some ((case map_of lines k of None \<Rightarrow> [] | Some ls \<Rightarrow> ls) @ [rstrip raw])"
          unfolding lines'_def by (simp add: map_of_setdefault_append split: option.splits)
        have f: "following k ws (raw # rest) = rstrip raw # following k ws rest"
          using True False by simp
        show ?thesis unfolding mk lk f by (simp split: option.splits)
      next
        case F2: False
        then have lk: "map_of lines' k = map_of lines k"
          unfolding lines'_def by (auto simp: map_of_setdefault_append split: option.splits)
        have f: "following k ws (raw # rest) = following k ws rest"
          using F2 False by simp
        show ?thesis unfolding mk lk f by (rule refl)
      qed
    qed
    then show ?thesis using IH by blast
  qed
qed


lemma following_not_marker:
  "l \<in> set (following k ws fl) \<Longrightarrow> \<not> startswith l ''RTBT_Diag''"
  by (induction fl arbitrary: ws) (auto split: if_splits)

lemma following_marker:
  "following k ws fl \<noteq> [] \<Longrightarrow> ws = Some k \<or> k \<in> set (markers fl)"
  by (induction fl arbitrary: ws) (auto simp: markers_def split: if_splits)


lemma collect_start:
  assumes "collect [] None None fl = Inr (lines, pv)"
  shows "distinct (map fst lines)"
    and "map_of lines k = (if following k None fl = [] then None else Some (following k None fl))"
    and "set (map fst lines) = {k \<in> set (markers fl). following k None fl \<noteq> []}"
proof -
  from collect_blocks [OF assms] have
    d: "distinct (map fst lines)" and
    m: "\<And>k. map_of lines k =
          (if following k None fl = [] then None else Some (following k None fl))"
    by simp_all
  show "distinct (map fst lines)" by (rule d)
  show "map_of lines k = (if following k None fl = [] then None else Some (following k None fl))"
    by (rule m)
  have "k \<in> set (map fst lines) \<longleftrightarrow> k \<in> set (markers fl) \<and> following k None fl \<noteq> []" for k
  proof -
    have "k \<in> set (map fst lines) \<longleftrightarrow> map_of lines k \<noteq> None"
      by (simp add: map_of_eq_None_iff)
    also have "\<dots> \<longleftrightarrow> following k None fl \<noteq> []" by (simp add: m)
    also have "\<dots> \<longleftrightarrow> k \<in> set (markers fl) \<and> following k None fl \<noteq> []"
      using following_marker [of k None fl] by auto
    finally show ?thesis .
  qed
  then show "set (map fst lines) = {k \<in> set (markers fl). following k None fl \<noteq> []}"
    by blast
qed

lemma read_file_Inr:
  assumes "read_file flt fname fl = Inr m"
  shows "\<exists>ts short lines pv.
           read_timestamp fname = Inr (ts, short) \<and>
           collect [] None None fl = Inr (lines, pv) \<and>
           read_nodes flt lines [] (sort (map fst lines)) = Inr (profiles m) \<and>
           node_ids m = sort (map fst lines) \<and> pvloggerid m = pv \<and>
           timestamp m = ts \<and> timestamp_short m = short"
  using assms
  by (auto simp: read_file_def Let_def split: sum.splits prod.splits)

lemma read_file_fails:
  assumes "collect [] None None fl = Inr (lines, pv)"
    and "map_of lines k = Some ls" and "read_node flt ls = Inl e"
  shows "\<exists>e'. read_file flt fname fl = Inl e'"
proof -
  have "k \<in> set (sort (map fst lines))"
    using assms(2) by (auto dest: map_of_SomeD intro: rev_image_eqI)
  from read_nodes_fails [OF this assms(2,3)]
  obtain e' where "read_nodes flt lines [] (sort (map fst lines)) = Inl e'" by blast
  then show ?thesis using assms(1)
    by (auto simp: read_file_def Let_def split: sum.splits prod.splits)
qed

lemma read_file_profiles:
  assumes "read_file flt fname fl = Inr m"
    and "collect [] None None fl = Inr (lines, pv)"
  shows "map fst (profiles m) = node_ids m"
    and "map_of lines k = Some ls \<Longrightarrow>
         \<exists>p. read_node flt ls = Inr p \<and> map_of (profiles m) k = Some p"
proof -
  from read_file_Inr [OF assms(1)] assms(2) have
    rn: "read_nodes flt lines [] (sort (map fst lines)) = Inr (profiles m)" and
    ids: "node_ids m = sort (map fst lines)"
    by auto
  have d: "distinct (sort (map fst lines))"
    using collect_start(1) [OF assms(2)] by simp
  from read_nodes_Inr [OF rn d] have
    keys: "map fst (profiles m) = sort (map fst lines)" and
    each: "\<forall>k\<in>set (sort (map fst lines)). \<exists>ls p. map_of lines k = Some ls \<and>
             read_node flt ls = Inr p \<and> map_of (profiles m) k = Some p"
    by simp_all
  show "map fst (profiles m) = node_ids m" using keys ids by simp
  show "\<exists>p. read_node flt ls = Inr p \<and> map_of (profiles m) k = Some p"
    if "map_of lines k = Some ls"
  proof -
    have "k \<in> set (sort (map fst lines))"
      using that by (auto dest: map_of_SomeD intro: rev_image_eqI)
    with each that show ?thesis by fastforce
  qed
qed

text \<open>
  \<^bold>\<open>C4\<close>.  A valid file is one that the reader accepts, whose marker lines are pairwise
  different, and in which every marker is followed by at least one line before the next marker
  or the end of the input.  For such a file with \<open>K\<close> marker lines, \<open>node_ids\<close> has
  \<open>K\<close> entries, is sorted and free of duplicates, has the marker lines as its elements, and
  lists the keys of the dictionary of profiles; no line stored for a wire-scanner is a
  marker line.
\<close>

theorem C4_scanner_ids:
  assumes "PTA flt fname fl = Inr m"
    and "distinct (markers fl)"
    and "\<forall>k\<in>set (markers fl). following k None fl \<noteq> []"
  shows "length (node_ids m) = length (markers fl) \<and>
         sorted (node_ids m) \<and> distinct (node_ids m) \<and>
         set (node_ids m) = set (markers fl) \<and>
         map fst (profiles m) = node_ids m \<and>
         (\<exists>lines pv. collect [] None None fl = Inr (lines, pv) \<and>
            (\<forall>k ls. map_of lines k = Some ls \<longrightarrow> (\<forall>l\<in>set ls. \<not> startswith l ''RTBT_Diag'')))"
proof -
  have rf: "read_file flt fname fl = Inr m" using assms(1) by (simp add: PTA_def)
  from read_file_Inr [OF rf] obtain lines pv where
    c: "collect [] None None fl = Inr (lines, pv)" and
    ids: "node_ids m = sort (map fst lines)" by blast
  note cs = collect_start [OF c]
  have keys: "set (map fst lines) = set (markers fl)"
    using cs(3) assms(3) by auto
  have "length (node_ids m) = card (set (map fst lines))"
    using distinct_card [OF cs(1)] ids by simp
  also have "\<dots> = length (markers fl)"
    unfolding keys using assms(2) by (simp add: distinct_card)
  finally have len: "length (node_ids m) = length (markers fl)" .
  have stored: "\<forall>l\<in>set ls. \<not> startswith l ''RTBT_Diag''" if "map_of lines k = Some ls" for k ls
  proof -
    from that cs(2) [of k] have "ls = following k None fl" by (simp split: if_splits)
    then show ?thesis using following_not_marker by blast
  qed
  show ?thesis
    using len ids cs(1) keys read_file_profiles(1) [OF rf c] c stored by auto
qed

subsection \<open>The file level: scanner IDs and blocks\<close>

lemma example_reads: "PTA float_of_digits example_name example_file = Inr example_pta"
  by code_simp

lemma example_markers: "markers example_file = [''RTBT_Diag:WS24'', ''RTBT_Diag:WS02'']"
  by code_simp

text \<open>The example file has two markers, out of order; every hypothesis of the theorem
  holds of it.\<close>

theorem C4_scanner_ids_witness:
  "markers example_file = [''RTBT_Diag:WS24'', ''RTBT_Diag:WS02''] \<and>
   node_ids example_pta = [''RTBT_Diag:WS02'', ''RTBT_Diag:WS24''] \<and>
   length (node_ids example_pta) = length (markers example_file) \<and>
   sorted (node_ids example_pta) \<and> distinct (node_ids example_pta) \<and>
   set (node_ids example_pta) = set (markers example_file) \<and>
   map fst (profiles example_pta) = node_ids example_pta"
proof -
  have h2: "distinct (markers example_file)"
    by (simp add: example_markers)
  have h3: "\<forall>k\<in>set (markers example_file). following k None example_file \<noteq> []"
    by code_simp
  from C4_scanner_ids [OF example_reads h2 h3] show ?thesis
    by (simp add: example_markers example_pta_def)
qed

text \<open>
  \<^bold>\<open>C10\<close>.  Whenever the loop over the file ends without an exception, the dictionary
  \<open>lines\<close> has unique keys, and its entry for a marker text \<open>k\<close> is the list of all lines
  that follow the occurrences of \<open>k\<close>, merged in the order of the file; there is no entry
  when no line follows any occurrence of \<open>k\<close>.  When the whole file is read, the
  dictionary of profiles has exactly the marker texts followed by some line as its keys,
  each once, and the profile of \<open>k\<close> is read from the merged list.
\<close>

theorem C10_blocks:
  assumes "collect [] None None fl = Inr (lines, pv)"
  shows "distinct (map fst lines) \<and>
    (\<forall>k. map_of lines k =
       (if following k None fl = [] then None else Some (following k None fl))) \<and>
    (\<forall>m. read_file flt fname fl = Inr m \<longrightarrow>
       distinct (map fst (profiles m)) \<and>
       set (map fst (profiles m)) = {k \<in> set (markers fl). following k None fl \<noteq> []} \<and>
       (\<forall>k\<in>set (map fst (profiles m)).
          \<exists>p. read_node flt (following k None fl) = Inr p \<and> map_of (profiles m) k = Some p))"
proof -
  note cs = collect_start [OF assms]
  have prof: "distinct (map fst (profiles m)) \<and>
       set (map fst (profiles m)) = {k \<in> set (markers fl). following k None fl \<noteq> []} \<and>
       (\<forall>k\<in>set (map fst (profiles m)).
          \<exists>p. read_node flt (following k None fl) = Inr p \<and> map_of (profiles m) k = Some p)"
    if rf: "read_file flt fname fl = Inr m" for m
  proof -
    from read_file_Inr [OF rf] assms have ids: "node_ids m = sort (map fst lines)" by auto
    note rp = read_file_profiles [OF rf assms]
    have keys: "map fst (profiles m) = sort (map fst lines)" using rp(1) ids by simp
    have each: "\<exists>p. read_node flt (following k None fl) = Inr p \<and> map_of (profiles m) k = Some p"
      if "k \<in> set (map fst (profiles m))" for k
    proof -
      from that keys cs(3) have "following k None fl \<noteq> []" by simp
      then have "map_of lines k = Some (following k None fl)" by (simp add: cs(2))
      from rp(2) [OF this] show ?thesis .
    qed
    show ?thesis using keys cs(1) cs(3) each by simp
  qed
  show ?thesis using cs(1) cs(2) prof by blast
qed

lemma example_repeated_collect:
  "collect [] None None example_repeated =
     Inr ([(''RTBT_Diag:WS02'',
            [''Statistics'', ''----------'', ''Sigma 10 20 30 40 50 60'', '''',
             ''Raw'', ''----------'', ''0 1 2 3 4 5 6'', '''',
             ''Fit'', ''----------'', ''0 21 22 23 14 15 16'', ''''])], None)"
  by code_simp

text \<open>In the example the markers of WS01 and WS03 give no entry, and the two occurrences
  of the marker of WS02 give one entry, read from the merged lines.\<close>

theorem C10_blocks_witness:
  "markers example_repeated =
     [''RTBT_Diag:WS01'', ''RTBT_Diag:WS02'', ''RTBT_Diag:WS02'', ''RTBT_Diag:WS03''] \<and>
   following ''RTBT_Diag:WS01'' None example_repeated = [] \<and>
   following ''RTBT_Diag:WS03'' None example_repeated = [] \<and>
   following ''RTBT_Diag:WS02'' None example_repeated =
     [''Statistics'', ''----------'', ''Sigma 10 20 30 40 50 60'', '''',
      ''Raw'', ''----------'', ''0 1 2 3 4 5 6'', '''',
      ''Fit'', ''----------'', ''0 21 22 23 14 15 16'', ''''] \<and>
   \<not> isl (read_file float_of_digits example_name example_repeated) \<and>
   map fst (profiles (projr (read_file float_of_digits example_name example_repeated))) =
     [''RTBT_Diag:WS02''] \<and>
   set (map fst (profiles (projr (read_file float_of_digits example_name example_repeated)))) =
     {k \<in> set (markers example_repeated). following k None example_repeated \<noteq> []}"
proof -
  have m: "markers example_repeated =
     [''RTBT_Diag:WS01'', ''RTBT_Diag:WS02'', ''RTBT_Diag:WS02'', ''RTBT_Diag:WS03'']"
    by code_simp
  have f1: "following ''RTBT_Diag:WS01'' None example_repeated = []" by code_simp
  have f3: "following ''RTBT_Diag:WS03'' None example_repeated = []" by code_simp
  have f2: "following ''RTBT_Diag:WS02'' None example_repeated =
     [''Statistics'', ''----------'', ''Sigma 10 20 30 40 50 60'', '''',
      ''Raw'', ''----------'', ''0 1 2 3 4 5 6'', '''',
      ''Fit'', ''----------'', ''0 21 22 23 14 15 16'', '''']" by code_simp
  have ok: "\<not> isl (read_file float_of_digits example_name example_repeated)"
    by code_simp
  then have rf: "read_file float_of_digits example_name example_repeated =
      Inr (projr (read_file float_of_digits example_name example_repeated))"
    by simp
  have k: "map fst (profiles (projr (read_file float_of_digits example_name example_repeated))) =
     [''RTBT_Diag:WS02'']"
    by code_simp
  from C10_blocks [OF example_repeated_collect, of float_of_digits example_name] rf
  have "set (map fst (profiles (projr (read_file float_of_digits example_name example_repeated)))) =
          {k \<in> set (markers example_repeated). following k None example_repeated \<noteq> []}"
    by blast
  with ok k m f1 f2 f3 show ?thesis by blast
qed

subsection \<open>The logger line\<close>

lemma logger_lines_append:
  "logger_lines (a @ b) = logger_lines a @ logger_lines b"
  by (simp add: logger_lines_def)




subsection \<open>Reading one wire-scanner\<close>

lemma floats_Inr:
  "floats flt ts = Inr vs \<Longrightarrow>
   vs = map (\<lambda>t. the (flt t)) ts \<and> (\<forall>t\<in>set ts. flt t \<noteq> None)"
  by (induction ts arbitrary: vs) (auto split: option.splits sum.splits)

lemma floats_Inl:
  "floats flt ts = Inl e \<Longrightarrow> \<exists>t\<in>set ts. e = FloatError t \<and> flt t = None"
  by (induction ts) (auto split: option.splits sum.splits)

lemma floats_fail:
  "t \<in> set ts \<Longrightarrow> flt t = None \<Longrightarrow> \<exists>e. floats flt ts = Inl e"
  by (induction ts) (auto split: option.splits sum.splits)

lemma float_rows_Inr:
  "float_rows flt ls = Inr rows \<Longrightarrow>
   rows = map (\<lambda>l. map (\<lambda>t. the (flt t)) (tokens_of l)) ls \<and>
   (\<forall>l\<in>set ls. \<forall>t\<in>set (tokens_of l). flt t \<noteq> None)"
proof (induction ls arbitrary: rows)
  case Nil
  then show ?case by simp
next
  case (Cons l ls)
  from Cons.prems obtain r rs where
    r: "floats flt (tokens_of l) = Inr r" and rs: "float_rows flt ls = Inr rs" and
    rows: "rows = r # rs"
    by (auto simp: string_to_list_def split: sum.splits)
  from floats_Inr [OF r] Cons.IH [OF rs] rows show ?case by simp
qed

lemma float_rows_Inl:
  "float_rows flt ls = Inl e \<Longrightarrow>
   \<exists>l\<in>set ls. \<exists>t\<in>set (tokens_of l). e = FloatError t \<and> flt t = None"
proof (induction ls)
  case Nil
  then show ?case by simp
next
  case (Cons l ls)
  show ?case
  proof (cases "floats flt (tokens_of l)")
    case (Inl e')
    with Cons.prems have "e = e'" by (simp add: string_to_list_def)
    with floats_Inl [OF Inl] show ?thesis by auto
  next
    case (Inr r)
    with Cons.prems have "float_rows flt ls = Inl e"
      by (simp add: string_to_list_def split: sum.splits)
    from Cons.IH [OF this] show ?thesis by auto
  qed
qed

lemma shortest_bounds:
  "rows \<noteq> [] \<Longrightarrow>
   (\<forall>r\<in>set rows. shortest rows \<le> length r) \<and> (\<exists>r\<in>set rows. length r = shortest rows)"
  by (induction rows rule: shortest.induct) (auto simp: min_def)

lemma transpose_rows_nth:
  "j < shortest rows \<Longrightarrow> transpose_rows rows ! j = map (\<lambda>r. r ! j) rows"
  by (simp add: transpose_rows_def)

lemma length_transpose_rows: "length (transpose_rows rows) = shortest rows"
  by (simp add: transpose_rows_def)

lemma columns_Inr:
  assumes "columns flt ls = Inr cols"
  shows "ls \<noteq> []"
    and "\<forall>l\<in>set ls. 7 \<le> length (tokens_of l) \<and> (\<forall>t\<in>set (tokens_of l). flt t \<noteq> None)"
    and "\<exists>l\<in>set ls. length (tokens_of l) = 7"
    and "length cols = 7"
    and "j < 7 \<Longrightarrow> cols ! j = map (\<lambda>l. the (flt (tokens_of l ! j))) ls"
proof -
  from assms obtain rows where
    fr: "float_rows flt ls = Inr rows" and cols: "cols = transpose_rows rows" and
    len: "length (transpose_rows rows) = 7"
    by (auto simp: columns_def Let_def split: sum.splits if_splits)
  from float_rows_Inr [OF fr] have
    rows: "rows = map (\<lambda>l. map (\<lambda>t. the (flt t)) (tokens_of l)) ls" and
    ok: "\<forall>l\<in>set ls. \<forall>t\<in>set (tokens_of l). flt t \<noteq> None"
    by simp_all
  have sh: "shortest rows = 7" using len by (simp add: length_transpose_rows)
  then have ne: "rows \<noteq> []" by auto
  then show "ls \<noteq> []" using rows by simp
  from shortest_bounds [OF ne] sh have
    b1: "\<forall>r\<in>set rows. 7 \<le> length r" and b2: "\<exists>r\<in>set rows. length r = 7"
    by simp_all
  have lens: "\<forall>l\<in>set ls. 7 \<le> length (tokens_of l)"
    using b1 unfolding rows by simp
  show "\<forall>l\<in>set ls. 7 \<le> length (tokens_of l) \<and> (\<forall>t\<in>set (tokens_of l). flt t \<noteq> None)"
    using lens ok by simp
  show "\<exists>l\<in>set ls. length (tokens_of l) = 7"
    using b2 unfolding rows by auto
  show "length cols = 7" using cols len by simp
  show "cols ! j = map (\<lambda>l. the (flt (tokens_of l ! j))) ls" if "j < 7"
  proof -
    have "cols ! j = map (\<lambda>r. r ! j) rows"
      unfolding cols using that sh by (simp add: transpose_rows_nth)
    also have "\<dots> = map (\<lambda>l. map (\<lambda>t. the (flt t)) (tokens_of l) ! j) ls"
      unfolding rows by (simp add: comp_def)
    also have "\<dots> = map (\<lambda>l. the (flt (tokens_of l ! j))) ls"
      using lens that by (intro map_cong refl) (simp add: less_le_trans)
    finally show ?thesis .
  qed
qed

lemma columns_fail:
  "l \<in> set ls \<Longrightarrow> t \<in> set (tokens_of l) \<Longrightarrow> flt t = None \<Longrightarrow> \<exists>e. columns flt ls = Inl e"
  using columns_Inr(2) [of flt ls] by (cases "columns flt ls") auto

lemma stats_loop_Cons:
  assumes "stats_loop flt st (line # rest) = Inr st'"
  shows "\<exists>name t1 t2 t3 t4 t5 t6 v1 v2 v3 v4 v5 v6.
           tokens_of line = [name, t1, t2, t3, t4, t5, t6] \<and>
           flt t1 = Some v1 \<and> flt t2 = Some v2 \<and> flt t3 = Some v3 \<and>
           flt t4 = Some v4 \<and> flt t5 = Some v5 \<and> flt t6 = Some v6 \<and>
           stats_loop flt
             (AList.update (lower name @ ''_u_fit'') v3
             (AList.update (lower name @ ''_u_rms'') v4
             (AList.update (lower name @ ''_y_fit'') v1
             (AList.update (lower name @ ''_y_rms'') v2
             (AList.update (lower name @ ''_x_fit'') v5
             (AList.update (lower name @ ''_x_rms'') v6 st)))))) rest = Inr st'"
proof -
  from assms obtain name toks where tk: "tokens_of line = name # toks"
    by (auto split: list.splits)
  from assms tk obtain vals where fl: "floats flt toks = Inr vals"
    by (auto simp: Let_def split: sum.splits)
  from assms tk fl obtain v1 v2 v3 v4 v5 v6 where vals: "vals = [v1, v2, v3, v4, v5, v6]"
    by (auto simp: Let_def split: list.splits)
  from floats_Inr [OF fl] vals have
    m: "map (\<lambda>t. the (flt t)) toks = [v1, v2, v3, v4, v5, v6]" and
    ok: "\<forall>t\<in>set toks. flt t \<noteq> None" by simp_all
  from m obtain t1 t2 t3 t4 t5 t6 where toks: "toks = [t1, t2, t3, t4, t5, t6]"
    by (auto simp: map_eq_Cons_conv)
  have "flt t1 = Some v1" "flt t2 = Some v2" "flt t3 = Some v3"
       "flt t4 = Some v4" "flt t5 = Some v5" "flt t6 = Some v6"
    using m ok unfolding toks by auto
  moreover have "stats_loop flt
             (AList.update (lower name @ ''_u_fit'') v3
             (AList.update (lower name @ ''_u_rms'') v4
             (AList.update (lower name @ ''_y_fit'') v1
             (AList.update (lower name @ ''_y_rms'') v2
             (AList.update (lower name @ ''_x_fit'') v5
             (AList.update (lower name @ ''_x_rms'') v6 st)))))) rest = Inr st'"
    using assms tk fl vals by (simp add: Let_def)
  ultimately show ?thesis using tk toks by blast
qed

lemma stats_loop_Inr:
  "stats_loop flt st ls = Inr st' \<Longrightarrow>
   \<forall>l\<in>set ls. length (tokens_of l) = 7 \<and> (\<forall>t\<in>set (tl (tokens_of l)). flt t \<noteq> None)"
proof (induction ls arbitrary: st)
  case Nil
  then show ?case by simp
next
  case (Cons l ls)
  from stats_loop_Cons [OF Cons.prems] obtain name t1 t2 t3 t4 t5 t6 v1 v2 v3 v4 v5 v6 st1 where
    tk: "tokens_of l = [name, t1, t2, t3, t4, t5, t6]" and
    fl: "flt t1 = Some v1" "flt t2 = Some v2" "flt t3 = Some v3"
        "flt t4 = Some v4" "flt t5 = Some v5" "flt t6 = Some v6" and
    rest: "stats_loop flt st1 ls = Inr st'"
    by blast
  from Cons.IH [OF rest] tk fl show ?case by auto
qed

lemma take3_eq: "take 3 secs = [a, b, c] \<longleftrightarrow> (\<exists>rest. secs = a # b # c # rest)"
proof (cases secs)
  case Nil
  then show ?thesis by simp
next
  case (Cons x1 r1)
  show ?thesis
  proof (cases r1)
    case Nil
    then show ?thesis using Cons by (simp add: eval_nat_numeral)
  next
    case (Cons x2 r2)
    show ?thesis
    proof (cases r2)
      case Nil
      then show ?thesis using \<open>secs = x1 # r1\<close> \<open>r1 = x2 # r2\<close> by (simp add: eval_nat_numeral)
    next
      case (Cons x3 r3)
      then show ?thesis using \<open>secs = x1 # r1\<close> \<open>r1 = x2 # r2\<close>
        by (auto simp: eval_nat_numeral)
    qed
  qed
qed

lemma read_node_sections:
  "split node_lines '''' = Inr (s1 # s2 # s3 # rest) \<Longrightarrow>
   read_node flt node_lines = read_sections flt s1 s2 s3"
  by (simp add: read_node_def eval_nat_numeral)

lemma read_node_few:
  assumes "split node_lines '''' = Inr secs" and "length secs < 3"
  shows "read_node flt node_lines = Inl (UnpackError 3 (length secs))"
proof -
  have t: "take 3 secs = secs" using assms(2) by simp
  have "read_node flt node_lines =
      (case take 3 secs of
         [a, b, c] \<Rightarrow> read_sections flt a b c
       | firsts \<Rightarrow> Inl (UnpackError 3 (length firsts)))"
    using assms(1) by (simp add: read_node_def)
  also have "\<dots> = (case secs of
         [a, b, c] \<Rightarrow> read_sections flt a b c
       | firsts \<Rightarrow> Inl (UnpackError 3 (length firsts)))"
    by (simp only: t)
  also have "\<dots> = Inl (UnpackError 3 (length secs))"
    using assms(2) by (auto split: list.splits)
  finally show ?thesis .
qed

lemma read_node_Inr:
  assumes "read_node flt node_lines = Inr p"
  shows "\<exists>s1 s2 s3 rest. split node_lines '''' = Inr (s1 # s2 # s3 # rest) \<and>
           read_sections flt s1 s2 s3 = Inr p"
proof -
  from assms obtain secs where sp: "split node_lines '''' = Inr secs"
    by (auto simp: read_node_def split: sum.splits)
  from assms sp obtain a b c where t: "take 3 secs = [a, b, c]"
    by (auto simp: read_node_def split: list.splits)
  then obtain rest where secs: "secs = a # b # c # rest" unfolding take3_eq by blast
  from read_node_sections [OF sp [unfolded secs], of flt] assms sp secs
  show ?thesis by auto
qed

lemma read_sections_Inr:
  assumes "read_sections flt s1 s2 s3 = Inr p"
  shows "\<exists>raw fit st. columns flt (drop 2 s2) = Inr raw \<and> columns flt (drop 2 s3) = Inr fit \<and>
           stats_loop flt [] (drop 2 s1) = Inr st \<and>
           p = \<lparr>x_pos = fit ! 4, y_pos = fit ! 5, u_pos = fit ! 6,
                fx = raw ! 3, fy = raw ! 1, fu = raw ! 2,
                fx_fit = fit ! 3, fy_fit = fit ! 1, fu_fit = fit ! 2, stats = st\<rparr>"
  using assms by (auto simp: read_sections_def split: sum.splits)

text \<open>
  \<^bold>\<open>C1\<close> (as amended).  The second assignment of the columns (line 150) binds \<^verbatim>\<open>x\<close>,
  \<^verbatim>\<open>y\<close>, \<^verbatim>\<open>u\<close> again, so the position arrays of a profile are the columns 5, 6, 7 of the
  rows of the fit section and have the length of \<open>fx_fit\<close>, \<open>fy_fit\<close>, \<open>fu_fit\<close>; the
  columns 5, 6, 7 of the raw section are not kept.  The columns 4, 2, 3 of the raw rows are
  \<open>fx\<close>, \<open>fy\<close>, \<open>fu\<close>, one entry per raw row: a raw row \<^verbatim>\<open>0 1 2 3 4 5 6\<close> contributes
  \<open>fy = 1\<close>, \<open>fu = 2\<close>, \<open>fx = 3\<close>, and a fit row \<^verbatim>\<open>0 1 2 3 4 5 6\<close> contributes
  \<open>fy_fit = 1\<close>, \<open>fu_fit = 2\<close>, \<open>fx_fit = 3\<close>, \<open>x = 4\<close>, \<open>y = 5\<close>, \<open>u = 6\<close>.  Rows are
  the lines of a section after its first two lines, and every row has at least seven tokens.
\<close>

theorem C1_positions:
  assumes "read_node flt node_lines = Inr p"
  shows "\<exists>lines_stats lines_raw lines_fit rest.
     split node_lines '''' = Inr (lines_stats # lines_raw # lines_fit # rest) \<and>
     (\<forall>l\<in>set (drop 2 lines_raw) \<union> set (drop 2 lines_fit). 7 \<le> length (tokens_of l)) \<and>
     x_pos p = map (\<lambda>l. the (flt (tokens_of l ! 4))) (drop 2 lines_fit) \<and>
     y_pos p = map (\<lambda>l. the (flt (tokens_of l ! 5))) (drop 2 lines_fit) \<and>
     u_pos p = map (\<lambda>l. the (flt (tokens_of l ! 6))) (drop 2 lines_fit) \<and>
     fx_fit p = map (\<lambda>l. the (flt (tokens_of l ! 3))) (drop 2 lines_fit) \<and>
     fy_fit p = map (\<lambda>l. the (flt (tokens_of l ! 1))) (drop 2 lines_fit) \<and>
     fu_fit p = map (\<lambda>l. the (flt (tokens_of l ! 2))) (drop 2 lines_fit) \<and>
     fx p = map (\<lambda>l. the (flt (tokens_of l ! 3))) (drop 2 lines_raw) \<and>
     fy p = map (\<lambda>l. the (flt (tokens_of l ! 1))) (drop 2 lines_raw) \<and>
     fu p = map (\<lambda>l. the (flt (tokens_of l ! 2))) (drop 2 lines_raw) \<and>
     length (x_pos p) = length (fx_fit p) \<and> length (y_pos p) = length (fy_fit p) \<and>
     length (u_pos p) = length (fu_fit p) \<and>
     length (fx p) = length (drop 2 lines_raw) \<and> length (fx_fit p) = length (drop 2 lines_fit)"
proof -
  from read_node_Inr [OF assms] obtain s1 s2 s3 rest where
    sp: "split node_lines '''' = Inr (s1 # s2 # s3 # rest)" and
    rs: "read_sections flt s1 s2 s3 = Inr p" by blast
  from read_sections_Inr [OF rs] obtain raw fit st where
    raw: "columns flt (drop 2 s2) = Inr raw" and fit: "columns flt (drop 2 s3) = Inr fit" and
    p: "p = \<lparr>x_pos = fit ! 4, y_pos = fit ! 5, u_pos = fit ! 6,
             fx = raw ! 3, fy = raw ! 1, fu = raw ! 2,
             fx_fit = fit ! 3, fy_fit = fit ! 1, fu_fit = fit ! 2, stats = st\<rparr>"
    by blast
  note cr = columns_Inr [OF raw] and cf = columns_Inr [OF fit]
  have lens: "\<forall>l\<in>set (drop 2 s2) \<union> set (drop 2 s3). 7 \<le> length (tokens_of l)"
    using cr(2) cf(2) by auto
  have "x_pos p = map (\<lambda>l. the (flt (tokens_of l ! 4))) (drop 2 s3)"
       "y_pos p = map (\<lambda>l. the (flt (tokens_of l ! 5))) (drop 2 s3)"
       "u_pos p = map (\<lambda>l. the (flt (tokens_of l ! 6))) (drop 2 s3)"
       "fx_fit p = map (\<lambda>l. the (flt (tokens_of l ! 3))) (drop 2 s3)"
       "fy_fit p = map (\<lambda>l. the (flt (tokens_of l ! 1))) (drop 2 s3)"
       "fu_fit p = map (\<lambda>l. the (flt (tokens_of l ! 2))) (drop 2 s3)"
       "fx p = map (\<lambda>l. the (flt (tokens_of l ! 3))) (drop 2 s2)"
       "fy p = map (\<lambda>l. the (flt (tokens_of l ! 1))) (drop 2 s2)"
       "fu p = map (\<lambda>l. the (flt (tokens_of l ! 2))) (drop 2 s2)"
    unfolding p by (simp_all add: cr(5) cf(5))
  with sp lens show ?thesis by simp
qed

lemma example_block_reads:
  "read_node float_of_digits example_block =
     Inr \<lparr>x_pos = [14, 24], y_pos = [15, 25], u_pos = [16, 26],
          fx = [3], fy = [1], fu = [2],
          fx_fit = [23, 33], fy_fit = [21, 31], fu_fit = [22, 32],
          stats = [(''sigma_x_rms'', 60), (''sigma_x_fit'', 50), (''sigma_y_rms'', 20),
                   (''sigma_y_fit'', 10), (''sigma_u_rms'', 40), (''sigma_u_fit'', 30)]\<rparr>"
  by code_simp

theorem C1_positions_witness:
  "split example_block '''' =
     Inr [[''Statistics'', ''----------'', ''Sigma 10 20 30 40 50 60''],
          [''Raw'', ''----------'', ''0 1 2 3 4 5 6''],
          [''Fit'', ''----------'', ''0 21 22 23 14 15 16'', ''1 31 32 33 24 25 26'']] \<and>
   x_pos (projr (read_node float_of_digits example_block)) = [14, 24] \<and>
   fx (projr (read_node float_of_digits example_block)) = [3] \<and>
   fy (projr (read_node float_of_digits example_block)) = [1] \<and>
   fu (projr (read_node float_of_digits example_block)) = [2] \<and>
   length (x_pos (projr (read_node float_of_digits example_block))) =
     length (fx_fit (projr (read_node float_of_digits example_block)))"
proof -
  have sp: "split example_block '''' =
     Inr [[''Statistics'', ''----------'', ''Sigma 10 20 30 40 50 60''],
          [''Raw'', ''----------'', ''0 1 2 3 4 5 6''],
          [''Fit'', ''----------'', ''0 21 22 23 14 15 16'', ''1 31 32 33 24 25 26'']]"
    by code_simp
  from C1_positions [OF example_block_reads] sp
  show ?thesis by (simp add: example_block_reads)
qed

text \<open>The claim as stated fails: with one raw row \<^verbatim>\<open>0 1 2 3 4 5 6\<close> and two fit rows the
  positions stored are those of the fit rows, not \<open>x = 4\<close>, \<open>y = 5\<close>, \<open>u = 6\<close>, and they
  are two while \<open>fx\<close>, \<open>fy\<close>, \<open>fu\<close> have one entry.\<close>

theorem C1_counterexample:
  "read_node float_of_digits
     [''Statistics'', ''----------'', ''Sigma 10 20 30 40 50 60'', '''',
      ''Raw'', ''----------'', ''0 1 2 3 4 5 6'', '''',
      ''Fit'', ''----------'', ''0 21 22 23 14 15 16'', ''1 31 32 33 24 25 26'', ''''] =
   Inr \<lparr>x_pos = [14, 24], y_pos = [15, 25], u_pos = [16, 26],
        fx = [3], fy = [1], fu = [2],
        fx_fit = [23, 33], fy_fit = [21, 31], fu_fit = [22, 32],
        stats = [(''sigma_x_rms'', 60), (''sigma_x_fit'', 50), (''sigma_y_rms'', 20),
                 (''sigma_y_fit'', 10), (''sigma_u_rms'', 40), (''sigma_u_fit'', 30)]\<rparr>"
  by code_simp

lemma read_file_fails_block:
  assumes "read_node flt (following k None fl) = Inl e" and "following k None fl \<noteq> []"
  shows "\<exists>e'. read_file flt fname fl = Inl e'"
proof (cases "collect [] None None fl")
  case (Inl e0)
  then show ?thesis
    by (auto simp: read_file_def split: sum.splits prod.splits)
next
  case (Inr r)
  obtain lines pv where r: "r = (lines, pv)" by (cases r)
  have c: "collect [] None None fl = Inr (lines, pv)" using Inr r by simp
  have "map_of lines k = Some (following k None fl)"
    using collect_start(2) [OF c, of k] assms(2) by simp
  from read_file_fails [OF c this assms(1)] show ?thesis .
qed

lemma split_Inr_nonempty: "split items token = Inr secs \<Longrightarrow> items \<noteq> []"
  by (auto simp: split_def Let_def)



subsection \<open>When a wire-scanner is read, and when not\<close>

lemma floats_ok:
  "\<forall>t\<in>set ts. flt t \<noteq> None \<Longrightarrow> floats flt ts = Inr (map (\<lambda>t. the (flt t)) ts)"
  by (induction ts) auto

lemma float_rows_ok:
  "\<forall>l\<in>set ls. \<forall>t\<in>set (tokens_of l). flt t \<noteq> None \<Longrightarrow>
   float_rows flt ls = Inr (map (\<lambda>l. map (\<lambda>t. the (flt t)) (tokens_of l)) ls)"
  by (induction ls) (auto simp: string_to_list_def floats_ok)

lemma shortest_eq:
  assumes "rows \<noteq> []" "\<forall>r\<in>set rows. n \<le> length r" "\<exists>r\<in>set rows. length r = n"
  shows "shortest rows = n"
proof -
  from shortest_bounds [OF assms(1)] have
    lo: "\<forall>r\<in>set rows. shortest rows \<le> length r" and
    hi: "\<exists>r\<in>set rows. length r = shortest rows" by simp_all
  from hi assms(2) have "n \<le> shortest rows" by auto
  moreover from assms(3) lo have "shortest rows \<le> n" by auto
  ultimately show ?thesis by simp
qed

lemma columns_ok:
  assumes "ls \<noteq> []"
    and "\<forall>l\<in>set ls. 7 \<le> length (tokens_of l) \<and> (\<forall>t\<in>set (tokens_of l). flt t \<noteq> None)"
    and "\<exists>l\<in>set ls. length (tokens_of l) = 7"
  shows "\<exists>cols. columns flt ls = Inr cols"
proof -
  define rows where "rows = map (\<lambda>l. map (\<lambda>t. the (flt t)) (tokens_of l)) ls"
  have fr: "float_rows flt ls = Inr rows"
    unfolding rows_def using assms(2) by (intro float_rows_ok) simp
  have "shortest rows = 7"
  proof (rule shortest_eq)
    show "rows \<noteq> []" using assms(1) by (simp add: rows_def)
    show "\<forall>r\<in>set rows. 7 \<le> length r" using assms(2) by (auto simp: rows_def)
    show "\<exists>r\<in>set rows. length r = 7" using assms(3) by (auto simp: rows_def)
  qed
  then show ?thesis
    by (simp add: columns_def fr length_transpose_rows)
qed

lemma length7:
  "length xs = 7 \<Longrightarrow> \<exists>a b c d e f g. xs = [a, b, c, d, e, f, g]"
  by (auto simp: eval_nat_numeral length_Suc_conv)

lemma stats_loop_ok:
  "\<forall>l\<in>set ls. length (tokens_of l) = 7 \<and> (\<forall>t\<in>set (tl (tokens_of l)). flt t \<noteq> None) \<Longrightarrow>
   \<exists>st'. stats_loop flt st ls = Inr st'"
proof (induction ls arbitrary: st)
  case Nil
  then show ?case by simp
next
  case (Cons l ls)
  from Cons.prems have len: "length (tokens_of l) = 7"
    and ok: "\<forall>t\<in>set (tl (tokens_of l)). flt t \<noteq> None" by simp_all
  from length7 [OF len] obtain n t1 t2 t3 t4 t5 t6 where
    tk: "tokens_of l = [n, t1, t2, t3, t4, t5, t6]" by blast
  have fl: "floats flt [t1, t2, t3, t4, t5, t6] =
      Inr (map (\<lambda>t. the (flt t)) [t1, t2, t3, t4, t5, t6])"
    using ok unfolding tk by (intro floats_ok) simp
  have rest: "\<forall>l\<in>set ls. length (tokens_of l) = 7 \<and> (\<forall>t\<in>set (tl (tokens_of l)). flt t \<noteq> None)"
    using Cons.prems by simp
  show ?case
    using Cons.IH [OF rest] by (simp add: tk fl Let_def del: floats.simps)
qed

lemma read_sections_ok_iff:
  "(\<exists>p. read_sections flt s1 s2 s3 = Inr p) \<longleftrightarrow>
   (\<forall>l\<in>set (drop 2 s1). length (tokens_of l) = 7 \<and> (\<forall>t\<in>set (tl (tokens_of l)). flt t \<noteq> None)) \<and>
   (drop 2 s2 \<noteq> [] \<and>
    (\<forall>l\<in>set (drop 2 s2). 7 \<le> length (tokens_of l) \<and> (\<forall>t\<in>set (tokens_of l). flt t \<noteq> None)) \<and>
    (\<exists>l\<in>set (drop 2 s2). length (tokens_of l) = 7)) \<and>
   (drop 2 s3 \<noteq> [] \<and>
    (\<forall>l\<in>set (drop 2 s3). 7 \<le> length (tokens_of l) \<and> (\<forall>t\<in>set (tokens_of l). flt t \<noteq> None)) \<and>
    (\<exists>l\<in>set (drop 2 s3). length (tokens_of l) = 7))"
  (is "?L \<longleftrightarrow> ?S \<and> ?R \<and> ?F")
proof
  assume ?L
  then obtain p where "read_sections flt s1 s2 s3 = Inr p" by blast
  from read_sections_Inr [OF this] obtain raw fit st where
    raw: "columns flt (drop 2 s2) = Inr raw" and fit: "columns flt (drop 2 s3) = Inr fit" and
    st: "stats_loop flt [] (drop 2 s1) = Inr st" by blast
  from stats_loop_Inr [OF st] have ?S .
  moreover from columns_Inr(1-3) [OF raw] have ?R by blast
  moreover from columns_Inr(1-3) [OF fit] have ?F by blast
  ultimately show "?S \<and> ?R \<and> ?F" by blast
next
  assume a: "?S \<and> ?R \<and> ?F"
  then have ?S ?R ?F by blast+
  from columns_ok [of "drop 2 s2" flt] \<open>?R\<close> obtain raw where
    raw: "columns flt (drop 2 s2) = Inr raw" by blast
  from columns_ok [of "drop 2 s3" flt] \<open>?F\<close> obtain fit where
    fit: "columns flt (drop 2 s3) = Inr fit" by blast
  from stats_loop_ok [of "drop 2 s1" flt "[]"] \<open>?S\<close> obtain st where
    st: "stats_loop flt [] (drop 2 s1) = Inr st" by blast
  show ?L by (simp add: read_sections_def raw fit st)
qed

lemma columns_FloatError:
  "columns flt ls = Inl (FloatError t) \<Longrightarrow> flt t = None"
proof -
  assume a: "columns flt ls = Inl (FloatError t)"
  show ?thesis
  proof (cases "float_rows flt ls")
    case (Inl e)
    with a have "e = FloatError t" by (simp add: columns_def)
    with float_rows_Inl [OF Inl] show ?thesis by auto
  next
    case (Inr rows)
    with a show ?thesis by (simp add: columns_def Let_def split: if_splits)
  qed
qed

lemma stats_loop_FloatError:
  "stats_loop flt st ls = Inl (FloatError t) \<Longrightarrow> flt t = None"
proof (induction ls arbitrary: st)
  case Nil
  then show ?case by simp
next
  case (Cons l ls)
  show ?case
  proof (cases "tokens_of l")
    case Nil
    with Cons.prems show ?thesis by simp
  next
    case tk: (Cons tok toks)
    show ?thesis
    proof (cases "floats flt toks")
      case (Inl e)
      with Cons.prems tk have "e = FloatError t" by (simp add: Let_def)
      with floats_Inl [OF Inl] show ?thesis by auto
    next
      case (Inr vals)
      show ?thesis
      proof (cases "\<exists>v1 v2 v3 v4 v5 v6. vals = [v1, v2, v3, v4, v5, v6]")
        case True
        then obtain v1 v2 v3 v4 v5 v6 where v: "vals = [v1, v2, v3, v4, v5, v6]" by blast
        from Cons.prems tk Inr v obtain st1 where
          "stats_loop flt st1 ls = Inl (FloatError t)" by (simp add: Let_def)
        from Cons.IH [OF this] show ?thesis .
      next
        case False
        with Cons.prems tk Inr show ?thesis
          by (auto simp: Let_def split: list.splits)
      qed
    qed
  qed
qed

lemma read_sections_FloatError:
  "read_sections flt s1 s2 s3 = Inl (FloatError t) \<Longrightarrow> flt t = None"
  by (auto simp: read_sections_def split: sum.splits
        dest: columns_FloatError stats_loop_FloatError)

lemma read_node_FloatError:
  assumes "read_node flt node_lines = Inl (FloatError t)"
  shows "flt t = None"
proof (cases "split node_lines ''''")
  case (Inl e)
  then have "e = IndexError" by (auto simp: split_def Let_def split: if_splits)
  with assms Inl show ?thesis by (simp add: read_node_def)
next
  case (Inr secs)
  show ?thesis
  proof (cases "3 \<le> length secs")
    case True
    then obtain s1 s2 s3 rest where secs: "secs = s1 # s2 # s3 # rest"
      by (cases secs; cases "tl secs"; cases "tl (tl secs)") auto
    from read_node_sections [OF Inr [unfolded secs], of flt] assms
    have "read_sections flt s1 s2 s3 = Inl (FloatError t)" by simp
    then show ?thesis by (rule read_sections_FloatError)
  next
    case False
    then have "length secs < 3" by simp
    from read_node_few [OF Inr this, of flt] assms show ?thesis by simp
  qed
qed



text \<open>
  \<^bold>\<open>C7\<close> (as amended).  Let the lines that follow the marker \<open>k\<close> split into at least
  three sections.  The wire-scanner is read exactly when every statistics line is a name
  and six tokens that \<^verbatim>\<open>float\<close> accepts, and the raw and the fit section each have a row,
  only tokens that \<^verbatim>\<open>float\<close> accepts, at least seven tokens in every row and exactly seven
  in some row.  So a token that is no number, wherever a float is expected, makes the
  construction fail, none is coerced or skipped; when it is \<^verbatim>\<open>float\<close> that raises, the
  exception carries the refused token, and nothing of the scanner ID or of the line.  Rows of
  more than seven tokens are accepted beside a row of seven: \<^verbatim>\<open>zip\<close> cuts every row to the
  shortest, and the tokens beyond the seventh are dropped without an error.
\<close>

theorem C7_tokens:
  assumes "split (following k None fl) '''' = Inr (lines_stats # lines_raw # lines_fit # rest)"
  shows "((\<exists>p. read_node flt (following k None fl) = Inr p) \<longleftrightarrow>
            (\<forall>l\<in>set (drop 2 lines_stats).
               length (tokens_of l) = 7 \<and> (\<forall>t\<in>set (tl (tokens_of l)). flt t \<noteq> None)) \<and>
            (drop 2 lines_raw \<noteq> [] \<and>
             (\<forall>l\<in>set (drop 2 lines_raw).
                7 \<le> length (tokens_of l) \<and> (\<forall>t\<in>set (tokens_of l). flt t \<noteq> None)) \<and>
             (\<exists>l\<in>set (drop 2 lines_raw). length (tokens_of l) = 7)) \<and>
            (drop 2 lines_fit \<noteq> [] \<and>
             (\<forall>l\<in>set (drop 2 lines_fit).
                7 \<le> length (tokens_of l) \<and> (\<forall>t\<in>set (tokens_of l). flt t \<noteq> None)) \<and>
             (\<exists>l\<in>set (drop 2 lines_fit). length (tokens_of l) = 7))) \<and>
         ((\<nexists>p. read_node flt (following k None fl) = Inr p) \<longrightarrow>
            (\<exists>e. read_file flt fname fl = Inl e)) \<and>
         (\<forall>t. read_node flt (following k None fl) = Inl (FloatError t) \<longrightarrow> flt t = None)"
proof -
  have ne: "following k None fl \<noteq> []" using assms by (rule split_Inr_nonempty)
  have rn: "read_node flt (following k None fl) = read_sections flt lines_stats lines_raw lines_fit"
    using assms by (rule read_node_sections)
  have fails: "\<exists>e. read_file flt fname fl = Inl e"
    if "\<nexists>p. read_node flt (following k None fl) = Inr p"
  proof -
    from that obtain e where "read_node flt (following k None fl) = Inl e"
      by (cases "read_node flt (following k None fl)") auto
    from read_file_fails_block [OF this ne] show ?thesis .
  qed
  have f2: "(\<nexists>p. read_node flt (following k None fl) = Inr p) \<longrightarrow>
            (\<exists>e. read_file flt fname fl = Inl e)"
    using fails by (rule impI)
  have fe: "\<forall>t. read_node flt (following k None fl) = Inl (FloatError t) \<longrightarrow> flt t = None"
    using read_node_FloatError by blast
  have iff: "(\<exists>p. read_node flt (following k None fl) = Inr p) \<longleftrightarrow>
            (\<forall>l\<in>set (drop 2 lines_stats).
               length (tokens_of l) = 7 \<and> (\<forall>t\<in>set (tl (tokens_of l)). flt t \<noteq> None)) \<and>
            (drop 2 lines_raw \<noteq> [] \<and>
             (\<forall>l\<in>set (drop 2 lines_raw).
                7 \<le> length (tokens_of l) \<and> (\<forall>t\<in>set (tokens_of l). flt t \<noteq> None)) \<and>
             (\<exists>l\<in>set (drop 2 lines_raw). length (tokens_of l) = 7)) \<and>
            (drop 2 lines_fit \<noteq> [] \<and>
             (\<forall>l\<in>set (drop 2 lines_fit).
                7 \<le> length (tokens_of l) \<and> (\<forall>t\<in>set (tokens_of l). flt t \<noteq> None)) \<and>
             (\<exists>l\<in>set (drop 2 lines_fit). length (tokens_of l) = 7))"
    unfolding rn by (rule read_sections_ok_iff)
  show ?thesis by (rule conjI [OF iff conjI [OF f2 fe]])
qed

text \<open>The file with the eighth token \<^verbatim>\<open>999\<close> on a raw row is read; the file with the
  token \<^verbatim>\<open>abc\<close> is not.\<close>

theorem C7_tokens_witness:
  "(\<exists>p. read_node float_of_digits (following ''RTBT_Diag:WS24'' None example_extra_token) = Inr p) \<and>
   (\<exists>e. read_file float_of_digits example_name example_bad_raw = Inl e) \<and>
   float_of_digits ''abc'' = None"
proof -
  have s1: "split (following ''RTBT_Diag:WS24'' None example_extra_token) '''' =
      Inr [[''Statistics'', ''----------'', ''Sigma 10 20 30 40 50 60''],
           [''Raw'', ''----------'', ''0 1 2 3 4 5 6'', ''10 11 12 13 14 15 16 999''],
           [''Fit'', ''----------'', ''0 21 22 23 4 5 6'', ''10 31 32 33 14 15 16'']]"
    by code_simp
  have c1: "(\<forall>l\<in>set (drop 2 [''Statistics'', ''----------'', ''Sigma 10 20 30 40 50 60'']).
               length (tokens_of l) = 7 \<and>
               (\<forall>t\<in>set (tl (tokens_of l)). float_of_digits t \<noteq> None))"
    by code_simp
  have c2: "drop 2 [''Raw'', ''----------'', ''0 1 2 3 4 5 6'', ''10 11 12 13 14 15 16 999''] \<noteq> [] \<and>
     (\<forall>l\<in>set (drop 2 [''Raw'', ''----------'', ''0 1 2 3 4 5 6'', ''10 11 12 13 14 15 16 999'']).
         7 \<le> length (tokens_of l) \<and> (\<forall>t\<in>set (tokens_of l). float_of_digits t \<noteq> None)) \<and>
     (\<exists>l\<in>set (drop 2 [''Raw'', ''----------'', ''0 1 2 3 4 5 6'', ''10 11 12 13 14 15 16 999'']).
         length (tokens_of l) = 7)"
    by code_simp
  have c3: "drop 2 [''Fit'', ''----------'', ''0 21 22 23 4 5 6'', ''10 31 32 33 14 15 16''] \<noteq> [] \<and>
     (\<forall>l\<in>set (drop 2 [''Fit'', ''----------'', ''0 21 22 23 4 5 6'', ''10 31 32 33 14 15 16'']).
         7 \<le> length (tokens_of l) \<and> (\<forall>t\<in>set (tokens_of l). float_of_digits t \<noteq> None)) \<and>
     (\<exists>l\<in>set (drop 2 [''Fit'', ''----------'', ''0 21 22 23 4 5 6'', ''10 31 32 33 14 15 16'']).
         length (tokens_of l) = 7)"
    by code_simp
  have r1: "\<exists>p. read_node float_of_digits
               (following ''RTBT_Diag:WS24'' None example_extra_token) = Inr p"
    using C7_tokens [OF s1, of float_of_digits example_name] c1 c2 c3 by blast
  have s2: "split (following ''RTBT_Diag:WS24'' None example_bad_raw) '''' =
      Inr [[''Statistics'', ''----------'', ''Sigma 10 20 30 40 50 60''],
           [''Raw'', ''----------'', ''0 1 abc 3 4 5 6''],
           [''Fit'', ''----------'', ''0 21 22 23 14 15 16'']]"
    by code_simp
  have e2: "read_node float_of_digits (following ''RTBT_Diag:WS24'' None example_bad_raw) =
      Inl (FloatError ''abc'')"
    by code_simp
  from C7_tokens [OF s2, of float_of_digits example_name] e2
  have r2: "\<exists>e. read_file float_of_digits example_name example_bad_raw = Inl e"
    and r3: "float_of_digits ''abc'' = None"
    by auto
  show ?thesis using r1 r2 r3 by blast
qed

text \<open>The claim as stated fails.  The same error value comes out for the token \<^verbatim>\<open>abc\<close> in
  a raw row of WS24 and in a fit row of WS02, so it names neither the scanner nor the line;
  and the raw row \<^verbatim>\<open>10 11 12 13 14 15 16 999\<close> is read as if \<^verbatim>\<open>999\<close> were not there.\<close>

theorem C7_counterexample:
  "read_file float_of_digits example_name example_bad_raw = Inl (FloatError ''abc'') \<and>
   read_file float_of_digits example_name example_bad_fit = Inl (FloatError ''abc'') \<and>
   read_node float_of_digits
     [''Statistics'', ''----------'', ''Sigma 10 20 30 40 50 60'', '''',
      ''Raw'', ''----------'', ''0 1 2 3 4 5 6'', ''10 11 12 13 14 15 16 999'', '''',
      ''Fit'', ''----------'', ''0 21 22 23 4 5 6'', ''10 31 32 33 14 15 16'', ''''] =
   Inr \<lparr>x_pos = [4, 14], y_pos = [5, 15], u_pos = [6, 16],
        fx = [3, 13], fy = [1, 11], fu = [2, 12],
        fx_fit = [23, 33], fy_fit = [21, 31], fu_fit = [22, 32],
        stats = [(''sigma_x_rms'', 60), (''sigma_x_fit'', 50), (''sigma_y_rms'', 20),
                 (''sigma_y_fit'', 10), (''sigma_u_rms'', 40), (''sigma_u_fit'', 30)]\<rparr>"
  by code_simp

subsection \<open>The statistics\<close>

lemma key_eq: "length s = length s' \<Longrightarrow> n @ s = n' @ s' \<longleftrightarrow> n = n' \<and> s = s'"
  by (auto simp: append_eq_append_conv)

lemma stats_loop_keeps:
  assumes "stats_loop flt st ls = Inr st'"
    and "\<forall>l\<in>set ls. tokens_of l \<noteq> [] \<longrightarrow> lower (hd (tokens_of l)) \<noteq> nm"
    and "length suf = 6"
  shows "map_of st' (nm @ suf) = map_of st (nm @ suf)"
  using assms
proof (induction ls arbitrary: st)
  case Nil
  then show ?case by simp
next
  case (Cons l ls)
  from stats_loop_Cons [OF Cons.prems(1)] obtain name t1 t2 t3 t4 t5 t6 v1 v2 v3 v4 v5 v6 where
    tk: "tokens_of l = [name, t1, t2, t3, t4, t5, t6]" and
    rest: "stats_loop flt
             (AList.update (lower name @ ''_u_fit'') v3
             (AList.update (lower name @ ''_u_rms'') v4
             (AList.update (lower name @ ''_y_fit'') v1
             (AList.update (lower name @ ''_y_rms'') v2
             (AList.update (lower name @ ''_x_fit'') v5
             (AList.update (lower name @ ''_x_rms'') v6 st)))))) ls = Inr st'"
    by blast
  have ne: "lower name \<noteq> nm" using Cons.prems(2) tk by simp
  have later: "\<forall>l\<in>set ls. tokens_of l \<noteq> [] \<longrightarrow> lower (hd (tokens_of l)) \<noteq> nm"
    using Cons.prems(2) by simp
  from Cons.IH [OF rest later Cons.prems(3)] ne Cons.prems(3)
  show ?case by (simp add: update_conv' key_eq)
qed

lemma stats_loop_append:
  "stats_loop flt st (a @ b) =
   (case stats_loop flt st a of Inl e \<Rightarrow> Inl e | Inr st1 \<Rightarrow> stats_loop flt st1 b)"
proof (induction a arbitrary: st)
  case Nil
  then show ?case by simp
next
  case (Cons l a)
  show ?case
  proof (cases "stats_loop flt st (l # a)")
    case (Inr st2)
    from stats_loop_Cons [OF Inr] obtain name t1 t2 t3 t4 t5 t6 v1 v2 v3 v4 v5 v6 where
      tk: "tokens_of l = [name, t1, t2, t3, t4, t5, t6]" and
      fl: "flt t1 = Some v1" "flt t2 = Some v2" "flt t3 = Some v3"
          "flt t4 = Some v4" "flt t5 = Some v5" "flt t6 = Some v6"
      by blast
    show ?thesis
      by (simp add: tk fl Let_def Cons.IH)
  next
    case (Inl e)
    show ?thesis
    proof (cases "tokens_of l")
      case Nil
      then show ?thesis by simp
    next
      case tk: (Cons tok toks)
      show ?thesis
      proof (cases "floats flt toks")
        case fe: (Inl e')
        then show ?thesis using tk by (simp add: Let_def)
      next
        case (Inr vals)
        show ?thesis
        proof (cases "\<exists>v1 v2 v3 v4 v5 v6. vals = [v1, v2, v3, v4, v5, v6]")
          case True
          then obtain v1 v2 v3 v4 v5 v6 where v: "vals = [v1, v2, v3, v4, v5, v6]" by blast
          show ?thesis using tk Inr v by (simp add: Let_def Cons.IH)
        next
          case False
          then have "stats_loop flt st (l # a @ b) = Inl (UnpackError 6 (length vals))"
            "stats_loop flt st (l # a) = Inl (UnpackError 6 (length vals))"
            using tk Inr by (auto simp: Let_def split: list.splits)
          then show ?thesis by simp
        qed
      qed
    qed
  qed
qed

text \<open>
  \<^bold>\<open>C5\<close>.  Let a statistics line consist of the token \<open>NAME\<close> and six tokens that
  \<^verbatim>\<open>float\<close> turns into \<open>v1\<close> to \<open>v6\<close>.  The step of the loop for this line stores
  \<open>v1\<close> to \<open>v6\<close> under the keys made of \<open>NAME\<close> in lower case and the suffixes
  \<^verbatim>\<open>_y_fit\<close>, \<^verbatim>\<open>_y_rms\<close>, \<^verbatim>\<open>_u_fit\<close>, \<^verbatim>\<open>_u_rms\<close>, \<^verbatim>\<open>_x_fit\<close>, \<^verbatim>\<open>_x_rms\<close>, in this
  order of the positions, and leaves the keys of other names alone.  In the profile of a
  wire-scanner that is read, these keys hold these values, provided no later line of the
  section has the same name in lower case (a later line of the same name stores its own
  values under the same keys).
\<close>

theorem C5_stats_line:
  assumes "tokens_of line = [NAME, t1, t2, t3, t4, t5, t6]"
    and "flt t1 = Some v1" and "flt t2 = Some v2" and "flt t3 = Some v3"
    and "flt t4 = Some v4" and "flt t5 = Some v5" and "flt t6 = Some v6"
  shows "(\<exists>st1. stats_loop flt st (line # rest) = stats_loop flt st1 rest \<and>
            map_of st1 (lower NAME @ ''_y_fit'') = Some v1 \<and>
            map_of st1 (lower NAME @ ''_y_rms'') = Some v2 \<and>
            map_of st1 (lower NAME @ ''_u_fit'') = Some v3 \<and>
            map_of st1 (lower NAME @ ''_u_rms'') = Some v4 \<and>
            map_of st1 (lower NAME @ ''_x_fit'') = Some v5 \<and>
            map_of st1 (lower NAME @ ''_x_rms'') = Some v6 \<and>
            (\<forall>n s. length s = 6 \<and> n \<noteq> lower NAME \<longrightarrow> map_of st1 (n @ s) = map_of st (n @ s))) \<and>
         (\<forall>p lines_stats lines_raw lines_fit before after.
            read_sections flt lines_stats lines_raw lines_fit = Inr p \<and>
            drop 2 lines_stats = before @ line # after \<and>
            (\<forall>l\<in>set after. tokens_of l \<noteq> [] \<longrightarrow> lower (hd (tokens_of l)) \<noteq> lower NAME) \<longrightarrow>
            map_of (stats p) (lower NAME @ ''_y_fit'') = Some v1 \<and>
            map_of (stats p) (lower NAME @ ''_y_rms'') = Some v2 \<and>
            map_of (stats p) (lower NAME @ ''_u_fit'') = Some v3 \<and>
            map_of (stats p) (lower NAME @ ''_u_rms'') = Some v4 \<and>
            map_of (stats p) (lower NAME @ ''_x_fit'') = Some v5 \<and>
            map_of (stats p) (lower NAME @ ''_x_rms'') = Some v6)"
proof -
  define upd where "upd st =
             (AList.update (lower NAME @ ''_u_fit'') v3
             (AList.update (lower NAME @ ''_u_rms'') v4
             (AList.update (lower NAME @ ''_y_fit'') v1
             (AList.update (lower NAME @ ''_y_rms'') v2
             (AList.update (lower NAME @ ''_x_fit'') v5
             (AList.update (lower NAME @ ''_x_rms'') v6 st))))))" for st :: "(string \<times> 'a) list"
  have step: "stats_loop flt st (line # rest) = stats_loop flt (upd st) rest" for st rest
    unfolding upd_def using assms by (simp add: Let_def)
  have vals: "map_of (upd st) (lower NAME @ ''_y_fit'') = Some v1"
             "map_of (upd st) (lower NAME @ ''_y_rms'') = Some v2"
             "map_of (upd st) (lower NAME @ ''_u_fit'') = Some v3"
             "map_of (upd st) (lower NAME @ ''_u_rms'') = Some v4"
             "map_of (upd st) (lower NAME @ ''_x_fit'') = Some v5"
             "map_of (upd st) (lower NAME @ ''_x_rms'') = Some v6" for st
    unfolding upd_def by (simp_all add: update_conv')
  have others: "map_of (upd st) (n @ s) = map_of st (n @ s)"
    if "length s = 6" "n \<noteq> lower NAME" for n s st
    unfolding upd_def using that by (simp add: update_conv' key_eq)
  have first: "\<exists>st1. stats_loop flt st (line # rest) = stats_loop flt st1 rest \<and>
            map_of st1 (lower NAME @ ''_y_fit'') = Some v1 \<and>
            map_of st1 (lower NAME @ ''_y_rms'') = Some v2 \<and>
            map_of st1 (lower NAME @ ''_u_fit'') = Some v3 \<and>
            map_of st1 (lower NAME @ ''_u_rms'') = Some v4 \<and>
            map_of st1 (lower NAME @ ''_x_fit'') = Some v5 \<and>
            map_of st1 (lower NAME @ ''_x_rms'') = Some v6 \<and>
            (\<forall>n s. length s = 6 \<and> n \<noteq> lower NAME \<longrightarrow> map_of st1 (n @ s) = map_of st (n @ s))"
    using step [of st rest] vals [of st] others [of _ _ st] by blast
  have second: "map_of (stats p) (lower NAME @ suf) = map_of (upd st0) (lower NAME @ suf)"
    if rs: "read_sections flt lines_stats lines_raw lines_fit = Inr p"
      and d: "drop 2 lines_stats = before @ line # after"
      and later: "\<forall>l\<in>set after. tokens_of l \<noteq> [] \<longrightarrow> lower (hd (tokens_of l)) \<noteq> lower NAME"
      and suf: "length suf = 6"
      and st0: "stats_loop flt [] before = Inr st0"
    for p lines_stats lines_raw lines_fit before after suf st0
  proof -
    from read_sections_Inr [OF rs] have fin: "stats_loop flt [] (drop 2 lines_stats) = Inr (stats p)"
      by auto
    have "stats_loop flt [] (before @ line # after) = stats_loop flt st0 (line # after)"
      by (simp add: stats_loop_append st0 del: stats_loop.simps)
    also have "\<dots> = stats_loop flt (upd st0) after" by (rule step)
    finally have "stats_loop flt (upd st0) after = Inr (stats p)"
      using fin unfolding d by simp
    from stats_loop_keeps [OF this later suf] show ?thesis .
  qed
  have ex0: "\<exists>st0. stats_loop flt [] before = Inr st0"
    if rs: "read_sections flt lines_stats lines_raw lines_fit = Inr p"
      and d: "drop 2 lines_stats = before @ line # after"
    for p lines_stats lines_raw lines_fit before after
  proof -
    from read_sections_Inr [OF rs] have "stats_loop flt [] (before @ line # after) = Inr (stats p)"
      unfolding d by auto
    then show ?thesis
      by (cases "stats_loop flt [] before") (simp_all add: stats_loop_append del: stats_loop.simps)
  qed
  have final: "map_of (stats p) (lower NAME @ ''_y_fit'') = Some v1 \<and>
            map_of (stats p) (lower NAME @ ''_y_rms'') = Some v2 \<and>
            map_of (stats p) (lower NAME @ ''_u_fit'') = Some v3 \<and>
            map_of (stats p) (lower NAME @ ''_u_rms'') = Some v4 \<and>
            map_of (stats p) (lower NAME @ ''_x_fit'') = Some v5 \<and>
            map_of (stats p) (lower NAME @ ''_x_rms'') = Some v6"
    if rs: "read_sections flt lines_stats lines_raw lines_fit = Inr p"
      and d: "drop 2 lines_stats = before @ line # after"
      and later: "\<forall>l\<in>set after. tokens_of l \<noteq> [] \<longrightarrow> lower (hd (tokens_of l)) \<noteq> lower NAME"
    for p lines_stats lines_raw lines_fit before after
  proof -
    from ex0 [OF rs d] obtain st0 where st0: "stats_loop flt [] before = Inr st0" by blast
    note s = second [OF rs d later _ st0]
    show ?thesis
      using s [of "''_y_fit''"] s [of "''_y_rms''"] s [of "''_u_fit''"]
        s [of "''_u_rms''"] s [of "''_x_fit''"] s [of "''_x_rms''"] vals [of st0]
      by simp
  qed
  show ?thesis
    by (rule conjI [OF first]) (use final in blast)
qed

text \<open>The line \<^verbatim>\<open>Sigma 10 20 30 40 50 60\<close>, alone and as the statistics line of the example
  block.\<close>

theorem C5_stats_line_witness:
  "stats_loop float_of_digits [] [''Sigma 10 20 30 40 50 60''] =
     Inr [(''sigma_x_rms'', 60), (''sigma_x_fit'', 50), (''sigma_y_rms'', 20),
          (''sigma_y_fit'', 10), (''sigma_u_rms'', 40), (''sigma_u_fit'', 30)] \<and>
   map_of (stats (projr (read_node float_of_digits example_block))) ''sigma_y_fit'' = Some 10 \<and>
   map_of (stats (projr (read_node float_of_digits example_block))) ''sigma_y_rms'' = Some 20 \<and>
   map_of (stats (projr (read_node float_of_digits example_block))) ''sigma_u_fit'' = Some 30 \<and>
   map_of (stats (projr (read_node float_of_digits example_block))) ''sigma_u_rms'' = Some 40 \<and>
   map_of (stats (projr (read_node float_of_digits example_block))) ''sigma_x_fit'' = Some 50 \<and>
   map_of (stats (projr (read_node float_of_digits example_block))) ''sigma_x_rms'' = Some 60"
proof -
  have tk: "tokens_of ''Sigma 10 20 30 40 50 60'' =
      [''Sigma'', ''10'', ''20'', ''30'', ''40'', ''50'', ''60'']"
    by code_simp
  have f1: "float_of_digits ''10'' = Some 10" by code_simp
  have f2: "float_of_digits ''20'' = Some 20" by code_simp
  have f3: "float_of_digits ''30'' = Some 30" by code_simp
  have f4: "float_of_digits ''40'' = Some 40" by code_simp
  have f5: "float_of_digits ''50'' = Some 50" by code_simp
  have f6: "float_of_digits ''60'' = Some 60" by code_simp
  have lw: "lower ''Sigma'' = ''sigma''" by code_simp
  have sp: "split example_block '''' =
     Inr [[''Statistics'', ''----------'', ''Sigma 10 20 30 40 50 60''],
          [''Raw'', ''----------'', ''0 1 2 3 4 5 6''],
          [''Fit'', ''----------'', ''0 21 22 23 14 15 16'', ''1 31 32 33 24 25 26'']]"
    by code_simp
  have rs: "read_sections float_of_digits
              [''Statistics'', ''----------'', ''Sigma 10 20 30 40 50 60'']
              [''Raw'', ''----------'', ''0 1 2 3 4 5 6'']
              [''Fit'', ''----------'', ''0 21 22 23 14 15 16'', ''1 31 32 33 24 25 26''] =
            Inr (projr (read_node float_of_digits example_block))"
  proof -
    have c: "read_node float_of_digits example_block =
        Inr (projr (read_node float_of_digits example_block))"
      by (simp add: example_block_reads)
    show ?thesis
      by (rule trans [OF read_node_sections [OF sp, of float_of_digits, symmetric] c])
  qed
  have one: "stats_loop float_of_digits [] [''Sigma 10 20 30 40 50 60''] =
     Inr [(''sigma_x_rms'', 60), (''sigma_x_fit'', 50), (''sigma_y_rms'', 20),
          (''sigma_y_fit'', 10), (''sigma_u_rms'', 40), (''sigma_u_fit'', 30)]"
    by code_simp
  note t = C5_stats_line [OF tk f1 f2 f3 f4 f5 f6, of "[]" "[]", THEN conjunct2,
      THEN spec, of "projr (read_node float_of_digits example_block)",
      THEN spec, of "[''Statistics'', ''----------'', ''Sigma 10 20 30 40 50 60'']",
      THEN spec, of "[''Raw'', ''----------'', ''0 1 2 3 4 5 6'']",
      THEN spec, of "[''Fit'', ''----------'', ''0 21 22 23 14 15 16'', ''1 31 32 33 24 25 26'']",
      THEN spec, of "[]", THEN spec, of "[]"]
  from t rs one show ?thesis
    by (simp add: lw example_block_reads)
qed

end
